theory Spec2Isabelle
  imports Main "HOL-Library.Sublist" "HOL-Library.AList"
begin

section \<open>Markdown cleaner of the export service\<close>

text \<open>
  \<^verbatim>\<open>export_service.__markdown_to_text\<close> runs, for each token of its list in order,
  \<^verbatim>\<open>data = re.sub(re.escape(s), '', data)\<close>. With an escaped pattern \<^verbatim>\<open>re.sub\<close> scans the
  text from the left, deletes the token where it matches and resumes right after the
  match, and otherwise keeps one character and moves on. The empty pattern matches
  everywhere and deletes nothing.

  A character of the model stands for one character of the Python string, so lengths
  and positions are those Python counts; the model has the 256 characters below
  \<open>U+0100\<close>, and every token is among them.
\<close>

function re_sub_del :: "string \<Rightarrow> string \<Rightarrow> string" where
  "re_sub_del tok [] = []"
| "re_sub_del tok (c # cs) =
     (if tok \<noteq> [] \<and> prefix tok (c # cs)
      then re_sub_del tok (drop (length tok) (c # cs))
      else c # re_sub_del tok cs)"
  by pat_completeness auto
termination
  by (relation "measure (\<lambda>(tok, s). length s)") auto

definition stuff_to_remove :: "string list" where
  "stuff_to_remove =
     [''### '', ''####'', ''##'', ''#'', '' - '', ''- '', ''---'', ''**'', ''***'', ''  '']"

definition markdown_to_text :: "string \<Rightarrow> string" where
  "markdown_to_text data = foldl (\<lambda>d s. re_sub_del s d) data stuff_to_remove"

text \<open>One deletion of one occurrence of a listed token.\<close>

inductive deletes_token :: "string \<Rightarrow> string \<Rightarrow> bool" where
  delete_at: "tok \<in> set stuff_to_remove \<Longrightarrow> deletes_token (u @ tok @ v) (u @ v)"

section \<open>Values, exceptions and files\<close>

text \<open>
  Python values as the export service meets them. An \<open>atom\<close> is a scalar a Filter
  Record or a spreadsheet cell can hold (\<^verbatim>\<open>None\<close>, \<^verbatim>\<open>bool\<close>, \<^verbatim>\<open>int\<close>, \<^verbatim>\<open>str\<close>; floats are left
  out); \<open>json\<close> adds the lists and dicts that \<^verbatim>\<open>json.loads\<close> can return. A dict is an
  association list in insertion order, with distinct keys.
\<close>

datatype atom = ANone | ABool bool | AInt int | AStr string

datatype json = JAtom atom | JArr "json list" | JObj "(string \<times> json) list"

type_synonym dict = "(string \<times> json) list"

text \<open>The exception classes the code tells apart, or that escape it.\<close>

datatype exn =
  PermissionError | AttributeError | TypeError | ValueError | UnicodeDecodeError
  | OtherException

text \<open>\<^verbatim>\<open>d.get(k)\<close>: the value, or \<^verbatim>\<open>None\<close> for a missing key.\<close>

definition dict_get :: "dict \<Rightarrow> string \<Rightarrow> json" where
  "dict_get d k = (case map_of d k of None \<Rightarrow> JAtom ANone | Some v \<Rightarrow> v)"

text \<open>\<^verbatim>\<open>str(value)\<close> on a scalar.\<close>

function string_of_nat :: "nat \<Rightarrow> string" where
  "string_of_nat n =
     (if n < 10 then [''0123456789'' ! n]
      else string_of_nat (n div 10) @ [''0123456789'' ! (n mod 10)])"
  by pat_completeness auto
termination
  by (relation "measure id") auto

fun py_str :: "atom \<Rightarrow> string" where
  "py_str ANone = ''None''"
| "py_str (ABool b) = (if b then ''True'' else ''False'')"
| "py_str (AInt i) = (if i < 0 then CHR ''-'' # string_of_nat (nat (- i)) else string_of_nat (nat i))"
| "py_str (AStr s) = s"

text \<open>
  Python compares and hashes \<^verbatim>\<open>True\<close> as \<^verbatim>\<open>1\<close> and \<^verbatim>\<open>False\<close> as \<^verbatim>\<open>0\<close>; \<open>py_key\<close> maps a
  scalar to the representative that set membership of tuples compares.
\<close>

fun py_key :: "atom \<Rightarrow> atom" where
  "py_key (ABool b) = AInt (if b then 1 else 0)"
| "py_key a = a"

text \<open>A tuple is hashable when every component is a scalar; a list or dict inside makes
  \<^verbatim>\<open>t in some_set\<close> raise \<^verbatim>\<open>TypeError\<close>.\<close>

fun atoms_of :: "json list \<Rightarrow> atom list option" where
  "atoms_of [] = Some []"
| "atoms_of (JAtom a # vs) = (case atoms_of vs of None \<Rightarrow> None | Some as \<Rightarrow> Some (a # as))"
| "atoms_of (v # vs) = None"

text \<open>\<^verbatim>\<open>not value\<close>.\<close>

fun falsy :: "json \<Rightarrow> bool" where
  "falsy (JAtom ANone) = True"
| "falsy (JAtom (ABool b)) = (\<not> b)"
| "falsy (JAtom (AInt i)) = (i = 0)"
| "falsy (JAtom (AStr s)) = (s = [])"
| "falsy (JArr xs) = (xs = [])"
| "falsy (JObj kvs) = (kvs = [])"

text \<open>\<^verbatim>\<open>for entry in value\<close>: a list yields its elements, a dict its keys, a string its
  characters; the other scalars are not iterable.\<close>

fun py_iter :: "json \<Rightarrow> exn + json list" where
  "py_iter (JArr xs) = Inr xs"
| "py_iter (JObj kvs) = Inr (map (\<lambda>kv. JAtom (AStr (fst kv))) kvs)"
| "py_iter (JAtom (AStr s)) = Inr (map (\<lambda>c. JAtom (AStr [c])) s)"
| "py_iter (JAtom a) = Inl TypeError"

text \<open>
  The backup file is modelled by what \<^verbatim>\<open>Path.exists\<close>, \<^verbatim>\<open>read_text\<close> and \<^verbatim>\<open>json.loads\<close> make
  of it: absent; bytes that do not decode as text, on which \<^verbatim>\<open>read_text\<close> raises
  \<^verbatim>\<open>UnicodeDecodeError\<close>; text that is not JSON, on which \<^verbatim>\<open>json.loads\<close> raises
  \<^verbatim>\<open>JSONDecodeError\<close>; or a JSON document. \<^verbatim>\<open>json.dumps\<close> followed by \<^verbatim>\<open>json.loads\<close> is
  taken to give back the value written, and writing the backup file is taken to
  succeed.
\<close>

datatype json_file = NoFile | Undecodable | NotJson | Json json

text \<open>
  A worksheet is the dense grid of its cell values: row \<open>r\<close>, column \<open>c\<close> (both from 1)
  is \<open>ws ! (r - 1) ! (c - 1)\<close>, and a cell outside the grid does not exist yet. Fonts,
  alignments and column widths are not values and are left out. The workbook file is
  absent, unreadable as a workbook, or a workbook with or without a sheet named
  \<^verbatim>\<open>Data\<close>. A workbook file holds the grid as the last \<^verbatim>\<open>wb.save\<close> wrote it; what
  \<^verbatim>\<open>load_workbook\<close> reads from it is \<open>load_sheet\<close> below, which is not the identity.
\<close>

type_synonym worksheet = "atom list list"

datatype xlsx_file = NoBook | BadBook | Book "worksheet option"

record store =
  backup_file :: json_file
  excel_file :: xlsx_file

text \<open>
  What the world outside the program decides during one call: whether
  \<^verbatim>\<open>load_workbook\<close> finds the file locked, what \<^verbatim>\<open>wb.save\<close> raises if anything, and what
  assigning a scalar to a cell of a given column raises if anything (the library
  refuses a string with a control character). The last field is the integer value of
  the number an integer beyond \<open>2^53\<close> is read back as: the file stores numbers as
  doubles printed with 16 digits, and that rounding is left as a parameter.
\<close>

record env =
  load_locked :: bool
  save_fault :: "exn option"
  cell_fault :: "nat \<Rightarrow> atom \<Rightarrow> exn option"
  wide_int_back :: "int \<Rightarrow> int"

definition EXCEL_COLUMNS :: "string list" where
  "EXCEL_COLUMNS =
     [''index'', ''days_count'', ''region'', ''deity'', ''yatra_specifics'', ''pace'',
      ''transport_preference'', ''additional_instructions'', ''specific_interests'',
      ''generated_itinerary'']"

section \<open>The worksheet operations the service calls\<close>

text \<open>\<^verbatim>\<open>ws.max_row\<close> is 1 on a sheet without cells, \<^verbatim>\<open>ws.max_column\<close> likewise.\<close>

definition max_row :: "worksheet \<Rightarrow> nat" where
  "max_row ws = (if ws = [] then 1 else length ws)"

definition max_column :: "worksheet \<Rightarrow> nat" where
  "max_column ws = foldr (\<lambda>r m. max (length r) m) ws 1"

definition pad_row :: "nat \<Rightarrow> atom list \<Rightarrow> atom list" where
  "pad_row n r = r @ replicate (n - length r) ANone"

text \<open>Looking a cell up creates it, empty, when it is not there (rows and columns from 1).\<close>

definition touch_cell :: "nat \<Rightarrow> nat \<Rightarrow> worksheet \<Rightarrow> worksheet" where
  "touch_cell r c ws =
     (let ws' = ws @ replicate (r - length ws) []
      in ws'[r - 1 := pad_row c (ws' ! (r - 1))])"

definition cell_value :: "nat \<Rightarrow> nat \<Rightarrow> worksheet \<Rightarrow> atom" where
  "cell_value r c ws =
     (if r - 1 < length ws \<and> c - 1 < length (ws ! (r - 1)) then ws ! (r - 1) ! (c - 1)
      else ANone)"

definition set_value :: "nat \<Rightarrow> nat \<Rightarrow> atom \<Rightarrow> worksheet \<Rightarrow> worksheet" where
  "set_value r c a ws = ws[r - 1 := (ws ! (r - 1))[c - 1 := a]]"

text \<open>Assigning a string to a cell keeps its first 32767 characters; the other scalars
  are stored as they are.\<close>

fun bind_value :: "atom \<Rightarrow> atom" where
  "bind_value (AStr s) = AStr (take 32767 s)"
| "bind_value a = a"

text \<open>
  \<^verbatim>\<open>ws.cell(row=r, column=c, value=v)\<close> creates the cell, then assigns \<open>v\<close> unless it is
  \<^verbatim>\<open>None\<close>. The assignment raises \<^verbatim>\<open>ValueError\<close> on a list or dict, and what the
  environment says on a scalar, which is checked after the cut. The cell created stays
  in the sheet when the assignment raises, so the sheet is returned in both cases.
\<close>

definition ws_cell :: "env \<Rightarrow> nat \<Rightarrow> nat \<Rightarrow> json \<Rightarrow> worksheet \<Rightarrow> exn option \<times> worksheet" where
  "ws_cell e r c v ws =
     (let ws' = touch_cell r c ws
      in case v of
           JAtom ANone \<Rightarrow> (None, ws')
         | JAtom a \<Rightarrow>
             (case cell_fault e c (bind_value a) of
                Some x \<Rightarrow> (Some x, ws')
              | None \<Rightarrow> (None, set_value r c (bind_value a) ws'))
         | _ \<Rightarrow> (Some ValueError, ws'))"

text \<open>Consecutive \<^verbatim>\<open>ws.cell\<close> calls along row \<open>r\<close> from column \<open>c\<close>, cut at the first raise.\<close>

fun write_cells :: "env \<Rightarrow> nat \<Rightarrow> nat \<Rightarrow> json list \<Rightarrow> worksheet \<Rightarrow> exn option \<times> worksheet" where
  "write_cells e r c [] ws = (None, ws)"
| "write_cells e r c (v # vs) ws =
     (case ws_cell e r c v ws of
        (Some x, ws') \<Rightarrow> (Some x, ws')
      | (None, ws') \<Rightarrow> write_cells e r (Suc c) vs ws')"

text \<open>\<^verbatim>\<open>ws.append(values)\<close> writes a new row below the last one.\<close>

definition ws_append :: "atom list \<Rightarrow> worksheet \<Rightarrow> worksheet" where
  "ws_append vals ws = ws @ [vals]"

text \<open>\<^verbatim>\<open>_format_header\<close> and \<^verbatim>\<open>_format_row\<close> look up the cells of columns 1 to 10 of one row
  and style them; \<^verbatim>\<open>_auto_adjust_width\<close> walks the ten columns over every row and sets
  widths. On the grid of values they only create the cells they visit.\<close>

definition format_header :: "worksheet \<Rightarrow> worksheet" where
  "format_header ws = touch_cell 1 (length EXCEL_COLUMNS) ws"

definition format_row :: "nat \<Rightarrow> worksheet \<Rightarrow> worksheet" where
  "format_row row_number ws = touch_cell row_number (length EXCEL_COLUMNS) ws"

definition auto_adjust_width :: "worksheet \<Rightarrow> worksheet" where
  "auto_adjust_width ws =
     map (pad_row (length EXCEL_COLUMNS)) (if ws = [] then [[]] else ws)"

text \<open>\<^verbatim>\<open>wb.save(excel_path)\<close>: the file becomes the workbook in memory, or the call raises
  and the file stays as it was.\<close>

definition wb_save :: "env \<Rightarrow> worksheet \<Rightarrow> exn + xlsx_file" where
  "wb_save e ws = (case save_fault e of Some x \<Rightarrow> Inl x | None \<Rightarrow> Inr (Book (Some ws)))"

text \<open>
  What \<^verbatim>\<open>load_workbook\<close> reads back is not always what was saved. A cell holding the
  empty string is written as an empty cell and read as \<^verbatim>\<open>None\<close>. Text goes through XML,
  whose reader turns a carriage return, with the line feed after it if there is one,
  into one line feed. An integer within \<open>2^53\<close> comes back as it was; a wider one comes
  back rounded.
\<close>

fun xml_eol :: "string \<Rightarrow> string" where
  "xml_eol [] = []"
| "xml_eol [c] = [if c = CHR 0x0D then CHR 0x0A else c]"
| "xml_eol (c # d # cs) =
     (if c = CHR 0x0D
      then CHR 0x0A # (if d = CHR 0x0A then xml_eol cs else xml_eol (d # cs))
      else c # xml_eol (d # cs))"

fun read_back :: "env \<Rightarrow> atom \<Rightarrow> atom" where
  "read_back e (AStr s) = (if s = [] then ANone else AStr (xml_eol s))"
| "read_back e (AInt i) =
     (if abs i \<le> 9007199254740992 then AInt i else AInt (wide_int_back e i))"
| "read_back e a = a"

definition load_sheet :: "env \<Rightarrow> worksheet \<Rightarrow> worksheet" where
  "load_sheet e ws = map (map (read_back e)) ws"

section \<open>The export service\<close>

text \<open>
  \<^verbatim>\<open>_get_paths\<close> reads the two paths from the configuration; the configuration is taken
  to load, and the paths are fixed, so the two files are the two fields of the store.

  \<^verbatim>\<open>write_json_backup\<close>: the entry is \<^verbatim>\<open>{**filters, "generated_itinerary": output}\<close>; an
  absent file, or text that is not JSON, starts from the empty list. \<^verbatim>\<open>read_text\<close> raises
  \<^verbatim>\<open>UnicodeDecodeError\<close>, which the handler for \<^verbatim>\<open>JSONDecodeError\<close> does not catch, on bytes
  that do not decode, and \<^verbatim>\<open>data.append(entry)\<close> raises \<^verbatim>\<open>AttributeError\<close> when the
  decoded document is not a list; both before anything is written.
\<close>

definition write_json_backup :: "dict \<Rightarrow> string \<Rightarrow> json_file \<Rightarrow> exn + json_file" where
  "write_json_backup filters output f =
     (let entry = JObj (AList.update ''generated_itinerary'' (JAtom (AStr output)) filters);
          data = (case f of Json d \<Rightarrow> Inr d | NotJson \<Rightarrow> Inr (JArr [])
                  | NoFile \<Rightarrow> Inr (JArr []) | Undecodable \<Rightarrow> Inl UnicodeDecodeError)
      in case data of
           Inl err \<Rightarrow> Inl err
         | Inr (JArr xs) \<Rightarrow> Inr (Json (JArr (xs @ [entry])))
         | Inr _ \<Rightarrow> Inl AttributeError)"

definition header_row :: "atom list" where
  "header_row = map AStr EXCEL_COLUMNS"

text \<open>
  \<^verbatim>\<open>_initialize_excel\<close> returns the sheet in memory, or raises; the second component is
  the workbook file afterwards. On a sheet without a header the lookup of \<^verbatim>\<open>A1\<close> creates
  that cell, so the header that \<^verbatim>\<open>ws.append\<close> adds lands below it.
\<close>

definition initialize_excel :: "env \<Rightarrow> xlsx_file \<Rightarrow> (exn + worksheet) \<times> xlsx_file" where
  "initialize_excel e x =
     (case x of
        NoBook \<Rightarrow>
          (let ws = format_header (ws_append header_row [])
           in case wb_save e ws of
                Inl err \<Rightarrow> (Inl err, x)
              | Inr x' \<Rightarrow> (Inr ws, x'))
      | BadBook \<Rightarrow> (Inl (if load_locked e then PermissionError else OtherException), x)
      | Book d \<Rightarrow>
          if load_locked e then (Inl PermissionError, x)
          else
            (let ws = (case d of Some ws \<Rightarrow> load_sheet e ws | None \<Rightarrow> [])
             in if max_row ws = 1 \<and> cell_value 1 1 ws = ANone
                then (Inr (format_header (ws_append header_row (touch_cell 1 1 ws))), x)
                else (Inr ws, x)))"

text \<open>The values \<^verbatim>\<open>write_to_excel_with_sync\<close> puts into columns 1 to 10 of the new row.\<close>

definition append_cells :: "nat \<Rightarrow> dict \<Rightarrow> string \<Rightarrow> json list" where
  "append_cells next_index filters output =
     [JAtom (AInt (int next_index)),
      dict_get filters ''days_count'',
      dict_get filters ''region'',
      dict_get filters ''deity'',
      dict_get filters ''yatra_specifics'',
      dict_get filters ''pace'',
      dict_get filters ''transport_preference'',
      dict_get filters ''additional_instructions'',
      dict_get filters ''specific_interests'',
      JAtom (AStr output)]"

text \<open>
  \<^verbatim>\<open>write_to_excel_with_sync\<close>. Both handlers of the \<^verbatim>\<open>try\<close> return \<^verbatim>\<open>False\<close> (they differ in
  what they print), so a raise of any class inside it gives \<^verbatim>\<open>False\<close>. The backup is
  written before the \<^verbatim>\<open>try\<close>, and a raise there leaves the function.
\<close>

definition write_to_excel_with_sync ::
    "env \<Rightarrow> dict \<Rightarrow> string \<Rightarrow> store \<Rightarrow> (exn + bool) \<times> store" where
  "write_to_excel_with_sync e filters output0 s =
     (let output = markdown_to_text output0
      in case write_json_backup filters output (backup_file s) of
           Inl err \<Rightarrow> (Inl err, s)
         | Inr b \<Rightarrow>
             (let s1 = s\<lparr>backup_file := b\<rparr>
              in case initialize_excel e (excel_file s1) of
                   (Inl err, x) \<Rightarrow> (Inr False, s1\<lparr>excel_file := x\<rparr>)
                 | (Inr ws, x) \<Rightarrow>
                     (let s2 = s1\<lparr>excel_file := x\<rparr>;
                          next_index = (if max_row ws \<ge> 2 then max_row ws else 1);
                          row_number = max_row ws + 1
                      in case write_cells e row_number 1 (append_cells next_index filters output) ws of
                           (Some err, ws') \<Rightarrow> (Inr False, s2)
                         | (None, ws') \<Rightarrow>
                             (case wb_save e (auto_adjust_width (format_row row_number ws')) of
                                Inl err \<Rightarrow> (Inr False, s2)
                              | Inr x' \<Rightarrow> (Inr True, s2\<lparr>excel_file := x'\<rparr>)))))"

text \<open>\<^verbatim>\<open>export_itinerary\<close> calls it and drops the result.\<close>

definition export_itinerary :: "env \<Rightarrow> dict \<Rightarrow> string \<Rightarrow> store \<Rightarrow> exn option \<times> store" where
  "export_itinerary e filters itinerary_text s =
     (case write_to_excel_with_sync e filters itinerary_text s of
        (Inl err, s') \<Rightarrow> (Some err, s')
      | (Inr b, s') \<Rightarrow> (None, s'))"

text \<open>A run of calls, one after the other on the same files, each with its own
  environment; the results are collected in order.\<close>

fun export_calls :: "(env \<times> dict \<times> string) list \<Rightarrow> store \<Rightarrow> (exn + bool) list \<times> store" where
  "export_calls [] s = ([], s)"
| "export_calls ((e, filters, output) # rest) s =
     (case write_to_excel_with_sync e filters output s of
        (r, s') \<Rightarrow> (case export_calls rest s' of (rs, s'') \<Rightarrow> (r # rs, s'')))"

subsection \<open>Reconciliation\<close>

text \<open>\<^verbatim>\<open>ws.iter_rows(min_row=2, values_only=True)\<close>: one tuple per row from the second to
  the last, as wide as the sheet, with \<^verbatim>\<open>None\<close> where a row has no cell.\<close>

definition iter_rows :: "nat \<Rightarrow> worksheet \<Rightarrow> atom list list" where
  "iter_rows min_row ws = map (pad_row (max_column ws)) (drop (min_row - 1) ws)"

definition tuple_in :: "atom list \<Rightarrow> atom list list \<Rightarrow> bool" where
  "tuple_in t S = (map py_key t \<in> set (map (map py_key) S))"

definition row_tuple :: "dict \<Rightarrow> json list" where
  "row_tuple entry =
     [dict_get entry ''days_count'',
      dict_get entry ''region'',
      dict_get entry ''deity'',
      dict_get entry ''yatra_specifics'',
      dict_get entry ''pace'',
      dict_get entry ''transport_preference'',
      dict_get entry ''additional_instructions'',
      dict_get entry ''specific_interests'',
      dict_get entry ''generated_itinerary'']"

text \<open>The values the loop of \<^verbatim>\<open>sync_missing_entries\<close> writes from column 2 on: the tuple,
  with \<^verbatim>\<open>str\<close> applied in column 10.\<close>

definition sync_cells :: "atom list \<Rightarrow> json list" where
  "sync_cells t =
     map (\<lambda>(col_idx, v). if col_idx = 10 then JAtom (AStr (py_str v)) else JAtom v)
       (enumerate 2 t)"

text \<open>The body of the inner \<^verbatim>\<open>try\<close>, up to \<^verbatim>\<open>_format_row\<close>.\<close>

definition sync_write_row :: "env \<Rightarrow> atom list \<Rightarrow> worksheet \<Rightarrow> exn option \<times> worksheet" where
  "sync_write_row e t ws =
     (let row_number = max_row ws + 1
      in case write_cells e row_number 1 (JAtom (AInt (int (max_row ws))) # sync_cells t) ws of
           (Some err, ws') \<Rightarrow> (Some err, ws')
         | (None, ws') \<Rightarrow> (None, format_row row_number ws'))"

record loop_state =
  sheet :: worksheet
  existing_tuples :: "atom list list"
  remaining_entries :: "json list"
  added :: nat

text \<open>
  The \<^verbatim>\<open>for entry in backup_data\<close> loop. \<^verbatim>\<open>entry.get\<close> raises \<^verbatim>\<open>AttributeError\<close> on anything
  but a dict and the membership test raises \<^verbatim>\<open>TypeError\<close> on an unhashable tuple, both
  outside the inner \<^verbatim>\<open>try\<close>. \<^verbatim>\<open>PermissionError\<close> inside it keeps the entry and breaks; any
  other exception keeps the entry and continues.
\<close>

fun sync_loop :: "env \<Rightarrow> json list \<Rightarrow> loop_state \<Rightarrow> exn + loop_state" where
  "sync_loop e [] st = Inr st"
| "sync_loop e (entry # rest) st =
     (case entry of
        JObj d \<Rightarrow>
          (case atoms_of (row_tuple d) of
             None \<Rightarrow> Inl TypeError
           | Some t \<Rightarrow>
               if tuple_in t (existing_tuples st) then sync_loop e rest st
               else
                 (case sync_write_row e t (sheet st) of
                    (None, ws') \<Rightarrow>
                      sync_loop e rest
                        (st\<lparr>sheet := ws', existing_tuples := t # existing_tuples st,
                            added := added st + 1\<rparr>)
                  | (Some PermissionError, ws') \<Rightarrow>
                      Inr (st\<lparr>sheet := ws', remaining_entries := remaining_entries st @ [entry]\<rparr>)
                  | (Some err, ws') \<Rightarrow>
                      sync_loop e rest
                        (st\<lparr>sheet := ws', remaining_entries := remaining_entries st @ [entry]\<rparr>)))
      | _ \<Rightarrow> Inl AttributeError)"

text \<open>
  \<^verbatim>\<open>sync_missing_entries\<close>. \<^verbatim>\<open>read_text\<close> stands inside the first \<^verbatim>\<open>try\<close>, whose handler
  catches \<^verbatim>\<open>JSONDecodeError\<close> only. Only \<^verbatim>\<open>PermissionError\<close> from \<^verbatim>\<open>_initialize_excel\<close> is handled;
  the final \<^verbatim>\<open>wb.save\<close> stands outside every \<^verbatim>\<open>try\<close>, and the backup file is rewritten
  after it.
\<close>

definition sync_missing_entries :: "env \<Rightarrow> store \<Rightarrow> (exn + nat) \<times> store" where
  "sync_missing_entries e s =
     (case backup_file s of
        NoFile \<Rightarrow> (Inr 0, s)
      | Undecodable \<Rightarrow> (Inl UnicodeDecodeError, s)
      | NotJson \<Rightarrow> (Inr 0, s\<lparr>backup_file := Json (JArr [])\<rparr>)
      | Json backup_data \<Rightarrow>
          if falsy backup_data then (Inr 0, s)
          else
            (case initialize_excel e (excel_file s) of
               (Inl PermissionError, x) \<Rightarrow> (Inr 0, s\<lparr>excel_file := x\<rparr>)
             | (Inl err, x) \<Rightarrow> (Inl err, s\<lparr>excel_file := x\<rparr>)
             | (Inr ws, x) \<Rightarrow>
                 (let s1 = s\<lparr>excel_file := x\<rparr>;
                      st0 = \<lparr>sheet = ws, existing_tuples = map (drop 1) (iter_rows 2 ws),
                             remaining_entries = [], added = 0\<rparr>
                  in case py_iter backup_data of
                       Inl err \<Rightarrow> (Inl err, s1)
                     | Inr entries \<Rightarrow>
                         (case sync_loop e entries st0 of
                            Inl err \<Rightarrow> (Inl err, s1)
                          | Inr st \<Rightarrow>
                              (case (if added st > 0
                                     then wb_save e (auto_adjust_width (sheet st))
                                     else Inr x) of
                                 Inl err \<Rightarrow> (Inl err, s1)
                               | Inr x' \<Rightarrow>
                                   (Inr (added st),
                                    \<lparr>backup_file = Json (JArr (remaining_entries st)),
                                     excel_file = x'\<rparr>))))))"

section \<open>The generation client\<close>

text \<open>
  \<^verbatim>\<open>app.__query_model\<close>. The remote service is a parameter: loading the configuration
  and building the client may raise, and \<^verbatim>\<open>generate_content\<close> raises or returns a
  response object (or nothing) whose \<^verbatim>\<open>text\<close> may be missing. Exceptions are those of
  class \<^verbatim>\<open>Exception\<close>, which the handler catches, logs and raises again. The log is the
  list of lines written so far.
\<close>

record response =
  resp_text :: "string option"

record gen_env =
  config_fault :: "exn option"
  generate_content :: "string \<Rightarrow> exn + response option"

datatype log_line = LogDebug string | LogError string | LogException exn

definition query_model :: "gen_env \<Rightarrow> string \<Rightarrow> log_line list \<Rightarrow> (exn + string) \<times> log_line list" where
  "query_model g prompt log0 =
     (let log1 = log0 @ [LogDebug ''Querying Gemini model...'']
      in case config_fault g of
           Some err \<Rightarrow> (Inl err, log1 @ [LogException err])
         | None \<Rightarrow>
             (case generate_content g prompt of
                Inl err \<Rightarrow> (Inl err, log1 @ [LogException err])
              | Inr None \<Rightarrow> (Inr [], log1 @ [LogError ''Empty response from Gemini''])
              | Inr (Some r) \<Rightarrow>
                  (case resp_text r of
                     None \<Rightarrow> (Inr [], log1 @ [LogError ''Empty response from Gemini''])
                   | Some t \<Rightarrow>
                       if t = [] then (Inr [], log1 @ [LogError ''Empty response from Gemini''])
                       else (Inr t, log1 @ [LogDebug ''Gemini response received successfully.'']))))"

section \<open>Notions used in the statements\<close>

text \<open>
  The Backup Log of the specification is a JSON array file; an absent file, or text
  that is not JSON, is treated as the empty log. \<open>is_backup_log\<close> rules out the
  remaining cases: a file that decodes to something other than an array, and bytes
  that are not text.
\<close>

definition is_backup_log :: "json_file \<Rightarrow> bool" where
  "is_backup_log f =
     (case f of
        Json (JArr xs) \<Rightarrow> True
      | Json _ \<Rightarrow> False
      | NotJson \<Rightarrow> True
      | NoFile \<Rightarrow> True
      | Undecodable \<Rightarrow> False)"

definition log_entries :: "json_file \<Rightarrow> json list" where
  "log_entries f = (case f of Json (JArr xs) \<Rightarrow> xs | _ \<Rightarrow> [])"

text \<open>The entry one export adds to the log.\<close>

definition backup_entry :: "dict \<Rightarrow> string \<Rightarrow> json" where
  "backup_entry filters output0 =
     JObj (AList.update ''generated_itinerary'' (JAtom (AStr (markdown_to_text output0))) filters)"

text \<open>The rows above row \<open>max_row ws + 1\<close>: the sheet itself, or one row without cells
  when the sheet has none.\<close>

definition rows_above :: "worksheet \<Rightarrow> worksheet" where
  "rows_above ws = (if ws = [] then [[]] else ws)"

text \<open>What a run of \<^verbatim>\<open>ws.cell\<close> calls from column \<open>c\<close> raises first, if anything; it does
  not depend on the sheet.\<close>

fun first_fault :: "env \<Rightarrow> nat \<Rightarrow> json list \<Rightarrow> exn option" where
  "first_fault e c [] = None"
| "first_fault e c (JAtom ANone # vs) = first_fault e (Suc c) vs"
| "first_fault e c (JAtom a # vs) =
     (case cell_fault e c (bind_value a) of
        Some x \<Rightarrow> Some x
      | None \<Rightarrow> first_fault e (Suc c) vs)"
| "first_fault e c (v # vs) = Some ValueError"

text \<open>Whether the loop of \<^verbatim>\<open>sync_missing_entries\<close> can write an entry at all: it is a
  dict, its tuple is hashable, and no cell of columns 2 to 10 raises.\<close>

definition write_fails :: "env \<Rightarrow> json \<Rightarrow> bool" where
  "write_fails e entry =
     (case entry of
        JObj d \<Rightarrow>
          (case atoms_of (row_tuple d) of
             Some t \<Rightarrow> first_fault e 2 (sync_cells t) \<noteq> None
           | None \<Rightarrow> False)
      | _ \<Rightarrow> False)"

text \<open>
  The column order as the specification lists it, and the row one export submits in
  that order: the index, the value the filters give under each of the eight names in
  between (\<^verbatim>\<open>None\<close> for a missing key), and the cleaned output. These two follow the
  words of the specification; \<open>EXCEL_COLUMNS\<close> and \<open>append_cells\<close> above follow the
  code.
\<close>

definition fixed_column_order :: "string list" where
  "fixed_column_order =
     [''index'', ''days_count'', ''region'', ''deity'', ''yatra_specifics'', ''pace'',
      ''transport_preference'', ''additional_instructions'', ''specific_interests'',
      ''generated_itinerary'']"

definition submitted_row :: "nat \<Rightarrow> dict \<Rightarrow> string \<Rightarrow> json list" where
  "submitted_row i filters output0 =
     JAtom (AInt (int i)) # map (dict_get filters) (butlast (tl fixed_column_order))
       @ [JAtom (AStr (markdown_to_text output0))]"

text \<open>
  The values a workbook keeps as they are, through assignment, saving and loading:
  \<^verbatim>\<open>None\<close>, a boolean, an integer within \<open>2^53\<close>, and a string that is not empty, has at
  most 32767 characters and no carriage return.
\<close>

fun kept_atom :: "atom \<Rightarrow> bool" where
  "kept_atom (AStr s) = (s \<noteq> [] \<and> length s \<le> 32767 \<and> CHR 0x0D \<notin> set s)"
| "kept_atom (AInt i) = (abs i \<le> 9007199254740992)"
| "kept_atom a = True"

fun kept :: "json \<Rightarrow> bool" where
  "kept (JAtom a) = kept_atom a"
| "kept v = False"

text \<open>Reading the sheet \<^verbatim>\<open>Data\<close> of the workbook file, if there is one.\<close>

definition read_sheet :: "env \<Rightarrow> xlsx_file \<Rightarrow> worksheet option" where
  "read_sheet e x = (case x of Book (Some ws) \<Rightarrow> Some (load_sheet e ws) | _ \<Rightarrow> None)"

section \<open>Concrete inputs\<close>

text \<open>The text of the specification's test of the cleaner, and the same text behind
  two hyphens and two spaces.\<close>

definition example_markdown :: string where
  "example_markdown = ''### Title'' @ [CHR 0x0A] @ ''- item **bold**''"

definition example_markdown_prefixed :: string where
  "example_markdown_prefixed = ''--  '' @ example_markdown"

text \<open>
  Three environments. In the first nothing is locked and nothing raises. In the second
  the workbook is open in another program that lets it be read but not written, so
  \<^verbatim>\<open>wb.save\<close> raises \<^verbatim>\<open>PermissionError\<close>. In the third it cannot be read either.
\<close>

definition env_ok :: env where
  "env_ok =
     \<lparr>load_locked = False, save_fault = None, cell_fault = (\<lambda>c a. None),
      wide_int_back = (\<lambda>i. i)\<rparr>"

definition env_save_refused :: env where
  "env_save_refused =
     \<lparr>load_locked = False, save_fault = Some PermissionError, cell_fault = (\<lambda>c a. None),
      wide_int_back = (\<lambda>i. i)\<rparr>"

definition env_file_locked :: env where
  "env_file_locked =
     \<lparr>load_locked = True, save_fault = Some PermissionError, cell_fault = (\<lambda>c a. None),
      wide_int_back = (\<lambda>i. i)\<rparr>"

text \<open>No backup file and no workbook yet; the submission of the specification's
  scenario; a second submission.\<close>

definition fresh_store :: store where
  "fresh_store = \<lparr>backup_file = NoFile, excel_file = NoBook\<rparr>"

definition filters_varanasi :: dict where
  "filters_varanasi =
     [(''days_count'', JAtom (AInt 3)), (''region'', JAtom (AStr ''Varanasi'')),
      (''deity'', JAtom (AStr ''Shiva''))]"

definition filters_kashi :: dict where
  "filters_kashi = [(''days_count'', JAtom (AInt 5)), (''region'', JAtom (AStr ''Kashi''))]"

definition output_day1 :: string where
  "output_day1 = ''### Day 1'' @ [CHR 0x0A] @ ''...''"

definition text_day1 :: string where
  "text_day1 = ''Day 1'' @ [CHR 0x0A] @ ''...''"

text \<open>The rows, the tuples and the log entries of the two submissions.\<close>

definition row_varanasi :: "atom list" where
  "row_varanasi =
     [AInt 1, AInt 3, AStr ''Varanasi'', AStr ''Shiva'', ANone, ANone, ANone, ANone, ANone,
      AStr text_day1]"

definition row_kashi :: "atom list" where
  "row_kashi =
     [AInt 2, AInt 5, AStr ''Kashi'', ANone, ANone, ANone, ANone, ANone, ANone, AStr ''b'']"

definition tuple_varanasi :: "atom list" where
  "tuple_varanasi =
     [AInt 3, AStr ''Varanasi'', AStr ''Shiva'', ANone, ANone, ANone, ANone, ANone,
      AStr text_day1]"

definition tuple_kashi :: "atom list" where
  "tuple_kashi = [AInt 5, AStr ''Kashi'', ANone, ANone, ANone, ANone, ANone, ANone, AStr ''b'']"

definition entry_varanasi :: json where
  "entry_varanasi =
     JObj (filters_varanasi @ [(''generated_itinerary'', JAtom (AStr text_day1))])"

definition entry_kashi :: json where
  "entry_kashi = JObj (filters_kashi @ [(''generated_itinerary'', JAtom (AStr ''b''))])"

text \<open>Both entries wait in the log and the workbook holds the header only; the files
  after one export, after two, and after the two waiting entries were written.\<close>

definition store_two_pending :: store where
  "store_two_pending =
     \<lparr>backup_file = Json (JArr [entry_varanasi, entry_kashi]),
      excel_file = Book (Some [header_row])\<rparr>"

definition store_one_row :: store where
  "store_one_row =
     \<lparr>backup_file = Json (JArr [entry_varanasi]),
      excel_file = Book (Some [header_row, row_varanasi])\<rparr>"

definition store_two_rows :: store where
  "store_two_rows =
     \<lparr>backup_file = Json (JArr [entry_varanasi, entry_kashi]),
      excel_file = Book (Some [header_row, row_varanasi, row_kashi])\<rparr>"

definition store_synced :: store where
  "store_synced =
     \<lparr>backup_file = Json (JArr []),
      excel_file = Book (Some [header_row, row_varanasi, row_kashi])\<rparr>"

text \<open>Two exports in a row, with nothing in the way.\<close>

definition two_calls :: "(env \<times> dict \<times> string) list" where
  "two_calls = [(env_ok, filters_varanasi, output_day1), (env_ok, filters_kashi, ''b'')]"

text \<open>One export of an empty output, as a generation that gave no text leaves it: the
  row as it is written, and as it is read back.\<close>

definition row_empty_written :: "atom list" where
  "row_empty_written =
     [AInt 1, AInt 3, AStr ''Varanasi'', AStr ''Shiva'', ANone, ANone, ANone, ANone, ANone,
      AStr []]"

definition row_empty_read :: "atom list" where
  "row_empty_read =
     [AInt 1, AInt 3, AStr ''Varanasi'', AStr ''Shiva'', ANone, ANone, ANone, ANone, ANone,
      ANone]"

definition store_empty_output :: store where
  "store_empty_output =
     \<lparr>backup_file =
        Json (JArr [JObj (filters_varanasi @ [(''generated_itinerary'', JAtom (AStr []))])]),
      excel_file = Book (Some [header_row, row_empty_written])\<rparr>"

text \<open>A backup file whose text is not JSON, and one whose bytes are not text.\<close>

definition store_corrupt :: store where
  "store_corrupt = \<lparr>backup_file = NotJson, excel_file = Book (Some [header_row])\<rparr>"

definition store_bad_bytes :: store where
  "store_bad_bytes = \<lparr>backup_file = Undecodable, excel_file = Book (Some [header_row])\<rparr>"

text \<open>A generation service that answers with nothing, and one whose call raises.\<close>

definition gen_empty :: gen_env where
  "gen_empty = \<lparr>config_fault = None, generate_content = (\<lambda>p. Inr None)\<rparr>"

definition gen_failing :: gen_env where
  "gen_failing = \<lparr>config_fault = None, generate_content = (\<lambda>p. Inl OtherException)\<rparr>"

section \<open>Properties of the markdown cleaner\<close>

lemma subseq_set_subset: "subseq xs ys \<Longrightarrow> set xs \<subseteq> set ys"
  by (auto elim: list_emb_set)

lemma subseq_re_sub_del: "subseq (re_sub_del tok s) s"
proof (induction tok s rule: re_sub_del.induct)
  case (1 tok)
  show ?case by simp
next
  case (2 tok c cs)
  show ?case
  proof (cases "tok \<noteq> [] \<and> prefix tok (c # cs)")
    case True
    have "subseq (re_sub_del tok (drop (length tok) (c # cs))) (drop (length tok) (c # cs))"
      using 2(1) True by simp
    moreover have "subseq (drop (length tok) (c # cs)) (c # cs)"
      by (metis append_take_drop_id list_emb_append2 subseq_order.order_refl)
    ultimately have "subseq (re_sub_del tok (drop (length tok) (c # cs))) (c # cs)"
      by (rule subseq_order.order_trans)
    then show ?thesis using True by simp
  next
    case False
    then show ?thesis using 2(2) by auto
  qed
qed

lemma subseq_foldl_re_sub_del: "subseq (foldl (\<lambda>d s. re_sub_del s d) data toks) data"
proof (induction toks arbitrary: data)
  case Nil
  show ?case by simp
next
  case (Cons t toks)
  have "subseq (foldl (\<lambda>d s. re_sub_del s d) (re_sub_del t data) toks) (re_sub_del t data)"
    by (rule Cons.IH)
  then show ?case
    using subseq_re_sub_del [of t data] by (auto intro: subseq_order.order_trans)
qed

lemma deletes_token_Cons:
  assumes "deletes_token\<^sup>*\<^sup>* s t"
  shows "deletes_token\<^sup>*\<^sup>* (c # s) (c # t)"
  using assms
proof (induction rule: rtranclp_induct)
  case base
  show ?case by simp
next
  case (step y z)
  from step.hyps(2) obtain tok u v where
    tok: "tok \<in> set stuff_to_remove" and y: "y = u @ tok @ v" and z: "z = u @ v"
    by (auto elim: deletes_token.cases)
  have "deletes_token ((c # u) @ tok @ v) ((c # u) @ v)"
    using tok by (rule delete_at)
  then have "deletes_token (c # y) (c # z)" using y z by simp
  with step.IH show ?case by (rule rtranclp.rtrancl_into_rtrancl)
qed

lemma deletes_token_re_sub_del:
  assumes "tok \<in> set stuff_to_remove"
  shows "deletes_token\<^sup>*\<^sup>* s (re_sub_del tok s)"
  using assms
proof (induction tok s rule: re_sub_del.induct)
  case (1 tok)
  show ?case by simp
next
  case (2 tok c cs)
  show ?case
  proof (cases "tok \<noteq> [] \<and> prefix tok (c # cs)")
    case True
    then have split: "c # cs = [] @ tok @ drop (length tok) (c # cs)"
      by (metis append_Nil prefix_def append_eq_conv_conj)
    have "deletes_token ([] @ tok @ drop (length tok) (c # cs)) ([] @ drop (length tok) (c # cs))"
      using "2.prems" by (rule delete_at)
    then have one: "deletes_token (c # cs) (drop (length tok) (c # cs))"
      using split by simp
    have "deletes_token\<^sup>*\<^sup>* (drop (length tok) (c # cs))
            (re_sub_del tok (drop (length tok) (c # cs)))"
      using 2(1) True "2.prems" by simp
    with one have "deletes_token\<^sup>*\<^sup>* (c # cs) (re_sub_del tok (drop (length tok) (c # cs)))"
      by (rule converse_rtranclp_into_rtranclp)
    then show ?thesis using True by simp
  next
    case False
    then have "deletes_token\<^sup>*\<^sup>* cs (re_sub_del tok cs)"
      using 2(2) "2.prems" by simp
    then have "deletes_token\<^sup>*\<^sup>* (c # cs) (c # re_sub_del tok cs)"
      by (rule deletes_token_Cons)
    then show ?thesis using False by auto
  qed
qed

lemma deletes_token_foldl:
  assumes "set toks \<subseteq> set stuff_to_remove"
  shows "deletes_token\<^sup>*\<^sup>* data (foldl (\<lambda>d s. re_sub_del s d) data toks)"
  using assms
proof (induction toks arbitrary: data)
  case Nil
  show ?case by simp
next
  case (Cons t toks)
  have "deletes_token\<^sup>*\<^sup>* data (re_sub_del t data)"
    using Cons.prems by (simp add: deletes_token_re_sub_del)
  moreover have "deletes_token\<^sup>*\<^sup>* (re_sub_del t data)
      (foldl (\<lambda>d s. re_sub_del s d) (re_sub_del t data) toks)"
    using Cons.prems by (intro Cons.IH) simp
  ultimately show ?case by simp
qed

lemma re_sub_del_single: "c \<notin> set (re_sub_del [c] s)"
proof (induction "[c]" s rule: re_sub_del.induct)
  case 1
  show ?case by simp
next
  case (2 d ds)
  show ?case
  proof (cases "d = c")
    case True
    then show ?thesis using 2(1) by simp
  next
    case False
    then show ?thesis using 2(2) by simp
  qed
qed

lemma markdown_to_text_no_hash: "CHR ''#'' \<notin> set (markdown_to_text s)"
proof -
  define a where
    "a = re_sub_del ''#'' (re_sub_del ''##'' (re_sub_del ''####'' (re_sub_del ''### '' s)))"
  have m: "markdown_to_text s =
      foldl (\<lambda>d s. re_sub_del s d) a ['' - '', ''- '', ''---'', ''**'', ''***'', ''  '']"
    by (simp add: markdown_to_text_def stuff_to_remove_def a_def)
  have "CHR ''#'' \<notin> set a" unfolding a_def by (rule re_sub_del_single)
  moreover have "set (markdown_to_text s) \<subseteq> set a"
    unfolding m by (rule subseq_set_subset [OF subseq_foldl_re_sub_del])
  ultimately show ?thesis by blast
qed

lemma re_sub_del_head:
  assumes "s = [] \<or> hd s \<noteq> c"
  shows "re_sub_del [c, c] s = [] \<or> hd (re_sub_del [c, c] s) \<noteq> c"
  using assms by (cases s) auto

lemma re_sub_del_pair: "\<not> sublist [c, c] (re_sub_del [c, c] s)"
proof (induction "[c, c]" s rule: re_sub_del.induct)
  case 1
  show ?case by simp
next
  case (2 d ds)
  show ?case
  proof (cases "prefix [c, c] (d # ds)")
    case True
    then obtain es where d: "d = c" and ds: "ds = c # es"
      by (cases ds) auto
    have "\<not> sublist [c, c] (re_sub_del [c, c] (drop (length [c, c]) (d # ds)))"
      by (rule 2(1)) (simp add: d ds)
    then show ?thesis by (simp add: d ds)
  next
    case False
    then have rest: "\<not> sublist [c, c] (re_sub_del [c, c] ds)" using 2(2) by simp
    have "\<not> prefix [c, c] (d # re_sub_del [c, c] ds)"
    proof
      assume p: "prefix [c, c] (d # re_sub_del [c, c] ds)"
      then have d: "d = c" by simp
      then have "ds = [] \<or> hd ds \<noteq> c" using False by (cases ds) auto
      from re_sub_del_head [OF this] p show False
        by (cases "re_sub_del [c, c] ds") auto
    qed
    moreover have "re_sub_del [c, c] (d # ds) = d # re_sub_del [c, c] ds"
      using False by auto
    ultimately show ?thesis using rest by (simp only: sublist_Cons_right) simp
  qed
qed

lemma markdown_to_text_no_double_space: "\<not> sublist ''  '' (markdown_to_text s)"
proof -
  define a where
    "a = foldl (\<lambda>d s. re_sub_del s d) s
           [''### '', ''####'', ''##'', ''#'', '' - '', ''- '', ''---'', ''**'', ''***'']"
  have "markdown_to_text s = re_sub_del ''  '' a"
    by (simp add: markdown_to_text_def stuff_to_remove_def a_def)
  then show ?thesis using re_sub_del_pair [of "CHR '' ''" a] by simp
qed

lemma markdown_to_text_example:
  "markdown_to_text example_markdown = ''Title'' @ [CHR 0x0A] @ ''item bold''"
  by (simp add: markdown_to_text_def stuff_to_remove_def example_markdown_def)

text \<open>
  C6, as amended. Whatever the input, the cleaned text arises from it by deleting
  occurrences of the listed tokens and nothing else, and neither a \<open>#\<close> nor two spaces
  in a row are left in it. On the text of the specification's test, taken as the whole
  input, the result is the three words with their line break and single spaces, and
  none of the tokens \<open>### \<close>, \<open>- \<close> and \<open>**\<close> occurs in it.
\<close>

theorem markdown_to_text_strips_listed_tokens:
  "deletes_token\<^sup>*\<^sup>* s (markdown_to_text s)
   \<and> CHR ''#'' \<notin> set (markdown_to_text s)
   \<and> \<not> sublist ''  '' (markdown_to_text s)
   \<and> markdown_to_text example_markdown = ''Title'' @ [CHR 0x0A] @ ''item bold''
   \<and> \<not> sublist ''### '' (markdown_to_text example_markdown)
   \<and> \<not> sublist ''- '' (markdown_to_text example_markdown)
   \<and> \<not> sublist ''**'' (markdown_to_text example_markdown)"
proof -
  have "deletes_token\<^sup>*\<^sup>* s (markdown_to_text s)"
    unfolding markdown_to_text_def by (rule deletes_token_foldl) simp
  moreover have "\<not> sublist ''### '' (markdown_to_text example_markdown)"
    by (simp add: markdown_to_text_example sublist_Cons_right)
  moreover have "\<not> sublist ''- '' (markdown_to_text example_markdown)"
    by (simp add: markdown_to_text_example sublist_Cons_right)
  moreover have "\<not> sublist ''**'' (markdown_to_text example_markdown)"
    by (simp add: markdown_to_text_example sublist_Cons_right)
  ultimately show ?thesis
    using markdown_to_text_no_hash [of s] markdown_to_text_no_double_space [of s]
      markdown_to_text_example
    by blast
qed

text \<open>The theorem at the input \<open>## a\<close>: the cleaner deletes the token \<open>##\<close>.\<close>

theorem markdown_to_text_strips_listed_tokens_witness:
  "deletes_token\<^sup>*\<^sup>* ''## a'' '' a'' \<and> CHR ''#'' \<notin> set '' a''
   \<and> \<not> sublist ''  '' '' a''"
proof -
  have "markdown_to_text ''## a'' = '' a''"
    by (simp add: markdown_to_text_def stuff_to_remove_def)
  then show ?thesis
    using markdown_to_text_strips_listed_tokens [of "''## a''"] by simp
qed

text \<open>
  C6 as it is written fails: an input that contains the text of the test can come out
  with a listed token in it. Behind \<open>--\<close> and two spaces, the pass for \<open>- \<close> deletes
  the second hyphen with the space after it, resumes behind the match, and leaves the
  first hyphen next to the other space.
\<close>

theorem markdown_to_text_token_survives:
  "sublist example_markdown example_markdown_prefixed
   \<and> markdown_to_text example_markdown_prefixed = ''- Title'' @ [CHR 0x0A] @ ''item bold''
   \<and> sublist ''- '' (markdown_to_text example_markdown_prefixed)"
proof -
  have "sublist example_markdown example_markdown_prefixed"
    unfolding example_markdown_prefixed_def by (metis sublist_appendI append_Nil2)
  moreover have m: "markdown_to_text example_markdown_prefixed
      = ''- Title'' @ [CHR 0x0A] @ ''item bold''"
    by (simp add: markdown_to_text_def stuff_to_remove_def example_markdown_prefixed_def
        example_markdown_def)
  moreover have "sublist ''- '' (markdown_to_text example_markdown_prefixed)"
    by (simp add: m sublist_Cons_right)
  ultimately show ?thesis by blast
qed

text \<open>
  C10. The cleaned text is a subsequence of the input: characters are deleted, never
  inserted or reordered, so the result is never longer than the input.
\<close>

theorem markdown_to_text_subseq:
  "subseq (markdown_to_text s) s \<and> length (markdown_to_text s) \<le> length s"
proof -
  have "subseq (markdown_to_text s) s"
    unfolding markdown_to_text_def by (rule subseq_foldl_re_sub_del)
  then show ?thesis by (simp add: list_emb_length)
qed

section \<open>Lemmas about the export service\<close>

lemma write_json_backup_log:
  assumes "is_backup_log f"
  shows "write_json_backup filters (markdown_to_text output0) f
         = Inr (Json (JArr (log_entries f @ [backup_entry filters output0])))"
  using assms
  by (auto simp: write_json_backup_def is_backup_log_def log_entries_def backup_entry_def
      split: json_file.splits json.splits)

lemma max_row_pos: "max_row ws \<ge> 1"
  by (cases ws) (simp_all add: max_row_def)

lemma next_index_max_row: "(if max_row ws \<ge> 2 then max_row ws else 1) = max_row ws"
  using max_row_pos [of ws] by auto

lemma write_to_excel_backup_first:
  assumes "write_json_backup filters (markdown_to_text output0) (backup_file s) = Inr b"
  shows "(\<exists>r. fst (write_to_excel_with_sync e filters output0 s) = Inr r)
         \<and> backup_file (snd (write_to_excel_with_sync e filters output0 s)) = b"
  using assms
  by (auto simp: write_to_excel_with_sync_def Let_def next_index_max_row
      split: prod.splits sum.splits option.splits)

lemma length_rows_above: "length (rows_above ws) = max_row ws"
  by (simp add: rows_above_def max_row_def)

lemma touch_cell_new_row:
  "touch_cell (Suc (max_row ws)) c ws = rows_above ws @ [pad_row c []]"
proof (cases "ws = []")
  case True
  then show ?thesis
    by (simp add: touch_cell_def rows_above_def max_row_def numeral_2_eq_2)
next
  case False
  then show ?thesis
    by (simp add: touch_cell_def rows_above_def max_row_def Let_def)
qed

lemma touch_cell_last_row:
  "touch_cell (Suc (length B)) c (B @ [p]) = B @ [pad_row c p]"
  by (simp add: touch_cell_def Let_def)

lemma set_value_last_row:
  "set_value (Suc (length B)) c a (B @ [q]) = B @ [q[c - 1 := a]]"
  by (simp add: set_value_def)

lemma pad_row_next: "pad_row (Suc (length p)) p = p @ [ANone]"
  by (simp add: pad_row_def)

lemma ws_cell_last_row:
  assumes "ws_cell e (Suc (length B)) (Suc (length p)) v (B @ [p]) = (None, w)"
  shows "\<exists>a. v = JAtom a \<and> w = B @ [p @ [bind_value a]]"
  using assms unfolding ws_cell_def Let_def touch_cell_last_row pad_row_next
  by (auto simp: set_value_last_row split: json.splits atom.splits option.splits)

lemma write_cells_last_row:
  assumes "write_cells e (Suc (length B)) (Suc (length p)) vs (B @ [p]) = (None, w)"
  shows "\<exists>as. vs = map JAtom as \<and> w = B @ [p @ map bind_value as]"
  using assms
proof (induction vs arbitrary: p)
  case Nil
  then show ?case by simp
next
  case (Cons v vs)
  obtain f w1 where c1: "ws_cell e (Suc (length B)) (Suc (length p)) v (B @ [p]) = (f, w1)"
    by (cases "ws_cell e (Suc (length B)) (Suc (length p)) v (B @ [p])")
  with Cons.prems have f: "f = None"
    and rest: "write_cells e (Suc (length B)) (Suc (Suc (length p))) vs w1 = (None, w)"
    by (auto split: option.splits)
  from ws_cell_last_row [OF c1 [unfolded f]]
  obtain a where v: "v = JAtom a" and w1: "w1 = B @ [p @ [bind_value a]]" by blast
  have "write_cells e (Suc (length B)) (Suc (length (p @ [bind_value a]))) vs
          (B @ [p @ [bind_value a]]) = (None, w)"
    using rest w1 by simp
  from Cons.IH [OF this]
  obtain as where as: "vs = map JAtom as" "w = B @ [(p @ [bind_value a]) @ map bind_value as]"
    by auto
  have "v # vs = map JAtom (a # as) \<and> w = B @ [p @ map bind_value (a # as)]"
    using v as by simp
  then show ?case by (rule exI [of _ "a # as"])
qed

lemma ws_cell_new_row:
  "ws_cell e (Suc (max_row ws)) c v ws = ws_cell e (Suc (max_row ws)) c v (rows_above ws @ [[]])"
proof -
  have "touch_cell (Suc (length (rows_above ws))) c (rows_above ws @ [[]])
      = rows_above ws @ [pad_row c []]"
    by (rule touch_cell_last_row)
  then show ?thesis by (simp add: ws_cell_def touch_cell_new_row length_rows_above)
qed

lemma write_cells_new_row:
  assumes "write_cells e (Suc (max_row ws)) (Suc 0) vs ws = (None, w)" and "vs \<noteq> []"
  shows "\<exists>as. vs = map JAtom as \<and> w = rows_above ws @ [map bind_value as]"
proof -
  obtain v vs' where vs: "vs = v # vs'" using assms(2) by (cases vs) auto
  have "write_cells e (Suc (length (rows_above ws))) (Suc (length ([]::atom list))) vs
          (rows_above ws @ [[]]) = (None, w)"
    using assms(1) unfolding vs by (simp add: ws_cell_new_row [symmetric] length_rows_above)
  from write_cells_last_row [OF this]
  show ?thesis by simp
qed

lemma length_append_cells: "length (append_cells i filters out) = 10"
  by (simp add: append_cells_def)

lemma length_EXCEL_COLUMNS: "length EXCEL_COLUMNS = 10"
  by (simp add: EXCEL_COLUMNS_def)

lemma pad_row_full: "length r \<ge> n \<Longrightarrow> pad_row n r = r"
  by (simp add: pad_row_def)

lemma write_to_excel_success:
  assumes "write_to_excel_with_sync e filters output0 s = (Inr True, s')"
  shows "\<exists>ws0 x as. initialize_excel e (excel_file s) = (Inr ws0, x)
           \<and> map JAtom as = append_cells (max_row ws0) filters (markdown_to_text output0)
           \<and> excel_file s'
               = Book (Some (map (pad_row 10) (rows_above ws0) @ [map bind_value as]))"
proof -
  let ?out = "markdown_to_text output0"
  obtain b where b: "write_json_backup filters ?out (backup_file s) = Inr b"
    using assms by (cases "write_json_backup filters ?out (backup_file s)")
      (auto simp: write_to_excel_with_sync_def Let_def)
  obtain i x where init: "initialize_excel e (excel_file s) = (i, x)"
    by (cases "initialize_excel e (excel_file s)")
  obtain ws0 where i: "i = Inr ws0"
    using assms b init by (cases i) (auto simp: write_to_excel_with_sync_def Let_def)
  let ?vs = "append_cells (max_row ws0) filters ?out"
  obtain f w where wc: "write_cells e (Suc (max_row ws0)) (Suc 0) ?vs ws0 = (f, w)"
    by (cases "write_cells e (Suc (max_row ws0)) (Suc 0) ?vs ws0")
  have f: "f = None"
    using assms b init i wc
    by (cases f) (auto simp: write_to_excel_with_sync_def Let_def next_index_max_row)
  have "?vs \<noteq> []" by (simp add: append_cells_def)
  from write_cells_new_row [OF wc [unfolded f] this]
  obtain as where row: "?vs = map JAtom as" and w: "w = rows_above ws0 @ [map bind_value as]"
    by blast
  have len: "length (map bind_value as) = 10"
    using row length_append_cells [of "max_row ws0" filters ?out] by (metis length_map)
  have fr: "format_row (Suc (max_row ws0)) w = w"
    unfolding format_row_def w length_rows_above [symmetric] touch_cell_last_row
    using len by (simp add: pad_row_full length_EXCEL_COLUMNS)
  have aw: "auto_adjust_width w = map (pad_row 10) (rows_above ws0) @ [map bind_value as]"
    using len by (simp add: auto_adjust_width_def w length_EXCEL_COLUMNS pad_row_full)
  have "excel_file s' = Book (Some (auto_adjust_width w))"
    using assms b init i wc f fr
    by (auto simp: write_to_excel_with_sync_def Let_def next_index_max_row wb_save_def
        split: option.splits)
  then show ?thesis using init i row aw by auto
qed

lemma cell_value_last_row_first:
  assumes "row \<noteq> []"
  shows "cell_value (Suc (length B)) (Suc 0) (B @ [row]) = hd row"
  using assms by (cases row) (simp_all add: cell_value_def)

lemma sync_write_row_success:
  assumes "sync_write_row e t ws = (None, ws')"
  shows "\<exists>as. ws' = rows_above ws @ [pad_row 10 (AInt (int (max_row ws)) # map bind_value as)]
           \<and> map JAtom as = sync_cells t"
proof -
  let ?vs = "JAtom (AInt (int (max_row ws))) # sync_cells t"
  obtain f w where wc: "write_cells e (Suc (max_row ws)) (Suc 0) ?vs ws = (f, w)"
    by (cases "write_cells e (Suc (max_row ws)) (Suc 0) ?vs ws")
  have f: "f = None" and ws': "ws' = format_row (Suc (max_row ws)) w"
    using assms wc by (auto simp: sync_write_row_def Let_def split: option.splits)
  have "?vs \<noteq> []" by simp
  from write_cells_new_row [OF wc [unfolded f] this]
  obtain row where row: "?vs = map JAtom row" and w: "w = rows_above ws @ [map bind_value row]"
    by metis
  from row obtain as where as: "row = AInt (int (max_row ws)) # as" "map JAtom as = sync_cells t"
    by (cases row) auto
  have "ws' = rows_above ws @ [pad_row 10 (map bind_value row)]"
    unfolding ws' format_row_def w length_rows_above [symmetric] touch_cell_last_row
    by (simp add: length_EXCEL_COLUMNS)
  then show ?thesis using as by auto
qed

lemma fst_write_cells: "fst (write_cells e r c vs ws) = first_fault e c vs"
proof (induction vs arbitrary: c ws)
  case Nil
  show ?case by simp
next
  case (Cons v vs)
  show ?case
  proof (cases v)
    case (JAtom a)
    then show ?thesis
      using Cons.IH by (cases a) (simp_all add: ws_cell_def Let_def split: option.splits)
  next
    case (JArr xs)
    then show ?thesis by (simp add: ws_cell_def Let_def)
  next
    case (JObj kvs)
    then show ?thesis by (simp add: ws_cell_def Let_def)
  qed
qed

lemma inj_JAtom: "map JAtom as = map JAtom bs \<Longrightarrow> as = bs"
  by (simp add: inj_on_def inj_map_eq_map [of JAtom, unfolded inj_on_def])

lemma write_cells_no_fault:
  assumes "first_fault e (Suc 0) (map JAtom as) = None" and "as \<noteq> []"
  shows "write_cells e (Suc (max_row ws)) (Suc 0) (map JAtom as) ws
         = (None, rows_above ws @ [map bind_value as])"
proof -
  obtain f w where wc: "write_cells e (Suc (max_row ws)) (Suc 0) (map JAtom as) ws = (f, w)"
    by (cases "write_cells e (Suc (max_row ws)) (Suc 0) (map JAtom as) ws")
  have f: "f = None"
    using fst_write_cells [of e "Suc (max_row ws)" "Suc 0" "map JAtom as" ws] wc assms(1)
    by simp
  have "map JAtom as \<noteq> []" using assms(2) by simp
  from write_cells_new_row [OF wc [unfolded f] this]
  obtain bs where "map JAtom as = map JAtom bs" and w: "w = rows_above ws @ [map bind_value bs]"
    by metis
  then have "bs = as" by (simp add: inj_JAtom)
  then show ?thesis using wc f w by simp
qed

lemma first_fault_no_cell_fault:
  assumes "\<And>c a. cell_fault e c a = None"
  shows "first_fault e c (map JAtom as) = None"
proof (induction as arbitrary: c)
  case Nil
  show ?case by simp
next
  case (Cons a as)
  then show ?case using assms by (cases a) simp_all
qed

lemma write_to_excel_succeeds:
  assumes b: "write_json_backup filters (markdown_to_text output0) (backup_file s) = Inr b"
    and init: "initialize_excel e (excel_file s) = (Inr ws0, x)"
    and row: "append_cells (max_row ws0) filters (markdown_to_text output0) = map JAtom row"
    and ff: "first_fault e (Suc 0) (map JAtom row) = None"
    and sv: "save_fault e = None"
  shows "write_to_excel_with_sync e filters output0 s
         = (Inr True,
            \<lparr>backup_file = b,
             excel_file
               = Book (Some (map (pad_row 10) (rows_above ws0) @ [map bind_value row]))\<rparr>)"
proof -
  have len: "length (map bind_value row) = 10"
    using row length_append_cells [of "max_row ws0" filters "markdown_to_text output0"]
    by (metis length_map)
  then have ne: "row \<noteq> []" by auto
  let ?w = "rows_above ws0 @ [map bind_value row]"
  have wc: "write_cells e (Suc (max_row ws0)) (Suc 0)
              (append_cells (max_row ws0) filters (markdown_to_text output0)) ws0 = (None, ?w)"
    unfolding row by (rule write_cells_no_fault [OF ff ne])
  have fr: "format_row (Suc (max_row ws0)) ?w = ?w"
    unfolding format_row_def length_rows_above [symmetric] touch_cell_last_row
    using len by (simp add: pad_row_full length_EXCEL_COLUMNS)
  have aw: "auto_adjust_width ?w = map (pad_row 10) (rows_above ws0) @ [map bind_value row]"
    using len by (simp add: auto_adjust_width_def length_EXCEL_COLUMNS pad_row_full)
  show ?thesis
    by (simp add: write_to_excel_with_sync_def Let_def b init next_index_max_row wc fr aw
        wb_save_def sv)
qed

lemma initialize_excel_fresh:
  assumes "save_fault e = None"
  shows "initialize_excel e NoBook = (Inr [header_row], Book (Some [header_row]))"
proof -
  have "length header_row = 10" by (simp add: header_row_def length_EXCEL_COLUMNS)
  then have "format_header (ws_append header_row []) = [header_row]"
    using touch_cell_last_row [of "[]" "length EXCEL_COLUMNS" header_row]
    by (simp add: format_header_def ws_append_def pad_row_full length_EXCEL_COLUMNS)
  then show ?thesis using assms by (simp add: initialize_excel_def wb_save_def Let_def)
qed

lemma xml_eol_no_cr: "CHR 0x0D \<notin> set s \<Longrightarrow> xml_eol s = s"
  by (induction s rule: xml_eol.induct) auto

lemma kept_atom_bind: "kept_atom a \<Longrightarrow> bind_value a = a"
  by (cases a) simp_all

lemma kept_atom_read_back: "kept_atom a \<Longrightarrow> read_back e a = a"
  by (cases a) (simp_all add: xml_eol_no_cr)

lemma kept_row_bind: "list_all kept_atom r \<Longrightarrow> map bind_value r = r"
  by (induction r) (simp_all add: kept_atom_bind)

lemma kept_row_read_back: "list_all kept_atom r \<Longrightarrow> map (read_back e) r = r"
  by (induction r) (simp_all add: kept_atom_read_back)

lemma kept_sheet_load: "list_all (list_all kept_atom) ws \<Longrightarrow> load_sheet e ws = ws"
  unfolding load_sheet_def by (induction ws) (simp_all add: kept_row_read_back)

lemma kept_header_row: "list_all kept_atom header_row"
  by (simp add: header_row_def EXCEL_COLUMNS_def)

lemma kept_row_varanasi: "list_all kept_atom row_varanasi"
  by (simp add: row_varanasi_def text_day1_def)

lemma kept_row_kashi: "list_all kept_atom row_kashi"
  by (simp add: row_kashi_def)

lemma markdown_output_day1': "markdown_to_text output_day1 = text_day1"
  by (simp add: markdown_to_text_def stuff_to_remove_def output_day1_def text_day1_def)

lemma append_cells_varanasi:
  "append_cells (Suc 0) filters_varanasi text_day1 = map JAtom row_varanasi"
  by (simp add: append_cells_def filters_varanasi_def row_varanasi_def dict_get_def)

lemma append_scenario:
  "write_to_excel_with_sync env_ok filters_varanasi output_day1 fresh_store
   = (Inr True,
      \<lparr>backup_file = Json (JArr [entry_varanasi]),
       excel_file = Book (Some [header_row, row_varanasi])\<rparr>)"
proof -
  have b: "write_json_backup filters_varanasi (markdown_to_text output_day1)
             (backup_file fresh_store) = Inr (Json (JArr [entry_varanasi]))"
    by (simp add: write_json_backup_def markdown_output_day1' fresh_store_def
        entry_varanasi_def filters_varanasi_def)
  have init: "initialize_excel env_ok (excel_file fresh_store)
      = (Inr [header_row], Book (Some [header_row]))"
    by (simp add: fresh_store_def initialize_excel_fresh env_ok_def)
  have row: "append_cells (max_row [header_row]) filters_varanasi
      (markdown_to_text output_day1) = map JAtom row_varanasi"
    by (simp add: max_row_def markdown_output_day1' append_cells_varanasi)
  have ff: "first_fault env_ok (Suc 0) (map JAtom row_varanasi) = None"
    by (rule first_fault_no_cell_fault) (simp add: env_ok_def)
  have sv: "save_fault env_ok = None" by (simp add: env_ok_def)
  have "length header_row = 10" by (simp add: header_row_def length_EXCEL_COLUMNS)
  then have "map (pad_row 10) (rows_above [header_row]) = [header_row]"
    by (simp add: rows_above_def pad_row_full)
  then show ?thesis
    using write_to_excel_succeeds [OF b init row ff sv]
    by (simp add: kept_row_bind [OF kept_row_varanasi])
qed

lemma initialize_excel_Book:
  assumes "initialize_excel e (Book (Some ws)) = (Inr ws0, x)"
    and "ws \<noteq> []" and "cell_value 1 1 ws \<noteq> ANone"
    and "list_all (list_all kept_atom) ws"
  shows "ws0 = ws \<and> x = Book (Some ws) \<and> \<not> load_locked e"
  using assms
  by (auto simp: initialize_excel_def Let_def kept_sheet_load split: if_splits)

lemma initialize_excel_NoBook:
  assumes "initialize_excel e NoBook = (Inr ws0, x)"
  shows "ws0 = [header_row] \<and> x = Book (Some [header_row]) \<and> save_fault e = None"
proof (cases "save_fault e")
  case None
  then show ?thesis using assms by (auto simp: initialize_excel_fresh)
next
  case (Some err)
  then show ?thesis using assms by (simp add: initialize_excel_def wb_save_def Let_def)
qed

lemma map_pad_row_full:
  assumes "\<forall>r\<in>set ws. length r = 10"
  shows "map (pad_row 10) ws = ws"
  using assms by (induction ws) (simp_all add: pad_row_full)

lemma cell_value_append:
  assumes "ws \<noteq> []"
  shows "cell_value (Suc 0) (Suc 0) (ws @ rows) = cell_value (Suc 0) (Suc 0) ws"
  using assms by (cases ws) (simp_all add: cell_value_def)

lemma header_fixed_column_order: "header_row = map AStr fixed_column_order"
  by (simp add: header_row_def EXCEL_COLUMNS_def fixed_column_order_def)

lemma append_cells_submitted_row:
  "append_cells i filters (markdown_to_text output0) = submitted_row i filters output0"
  by (simp add: append_cells_def submitted_row_def fixed_column_order_def)

lemma length_submitted_row: "length (submitted_row i filters output0) = 10"
  by (simp add: submitted_row_def fixed_column_order_def)

lemma kept_map_JAtom: "list_all kept (map JAtom as) = list_all kept_atom as"
  by (induction as) simp_all

lemma export_step_Book:
  assumes book: "excel_file s = Book (Some ws)"
    and ne: "ws \<noteq> []" and a1: "cell_value 1 1 ws \<noteq> ANone"
    and full: "\<forall>r\<in>set ws. length r = 10"
    and old: "list_all (list_all kept_atom) ws"
    and new: "list_all kept (submitted_row (length ws) filters output0)"
    and ok: "write_to_excel_with_sync e filters output0 s = (Inr True, s')"
  shows "\<exists>row. excel_file s' = Book (Some (ws @ [row]))
           \<and> map JAtom row = submitted_row (length ws) filters output0
           \<and> list_all kept_atom row"
proof -
  from write_to_excel_success [OF ok]
  obtain ws0 x as where init: "initialize_excel e (excel_file s) = (Inr ws0, x)"
    and row: "map JAtom as = append_cells (max_row ws0) filters (markdown_to_text output0)"
    and x: "excel_file s' = Book (Some (map (pad_row 10) (rows_above ws0) @ [map bind_value as]))"
    by blast
  have ws0: "ws0 = ws"
    using initialize_excel_Book [OF init [unfolded book] ne a1 old] by simp
  have above: "rows_above ws = ws" using ne by (simp add: rows_above_def)
  have rows: "max_row ws = length ws" using ne by (simp add: max_row_def)
  have sub: "map JAtom as = submitted_row (length ws) filters output0"
    using row ws0 rows by (simp add: append_cells_submitted_row)
  then have k: "list_all kept_atom as" using new kept_map_JAtom [of as] by simp
  then have "map bind_value as = as" by (rule kept_row_bind)
  then have "excel_file s' = Book (Some (ws @ [as]))"
    using x ws0 above map_pad_row_full [OF full] by simp
  then show ?thesis using sub k by blast
qed

lemma export_step_NoBook:
  assumes book: "excel_file s = NoBook"
    and new: "list_all kept (submitted_row (Suc 0) filters output0)"
    and ok: "write_to_excel_with_sync e filters output0 s = (Inr True, s')"
  shows "\<exists>row. excel_file s' = Book (Some ([header_row] @ [row]))
           \<and> map JAtom row = submitted_row (Suc 0) filters output0
           \<and> list_all kept_atom row"
proof -
  from write_to_excel_success [OF ok]
  obtain ws0 x as where init: "initialize_excel e (excel_file s) = (Inr ws0, x)"
    and row: "map JAtom as = append_cells (max_row ws0) filters (markdown_to_text output0)"
    and x: "excel_file s' = Book (Some (map (pad_row 10) (rows_above ws0) @ [map bind_value as]))"
    by blast
  have ws0: "ws0 = [header_row]"
    using initialize_excel_NoBook [OF init [unfolded book]] by simp
  have "length header_row = 10" by (simp add: header_row_def length_EXCEL_COLUMNS)
  then have h: "map (pad_row 10) (rows_above [header_row]) = [header_row]"
    by (simp add: rows_above_def pad_row_full)
  have sub: "map JAtom as = submitted_row (Suc 0) filters output0"
    using row ws0 by (simp add: append_cells_submitted_row max_row_def)
  then have k: "list_all kept_atom as" using new kept_map_JAtom [of as] by simp
  then have "map bind_value as = as" by (rule kept_row_bind)
  then have "excel_file s' = Book (Some ([header_row] @ [as]))"
    using x ws0 h by simp
  then show ?thesis using sub k by blast
qed

lemma export_calls_Book:
  assumes "excel_file s = Book (Some ws)"
    and "ws \<noteq> []" and "cell_value 1 1 ws \<noteq> ANone" and "\<forall>r\<in>set ws. length r = 10"
    and "list_all (list_all kept_atom) ws"
    and "export_calls calls s = (rs, s')"
    and "\<forall>r\<in>set rs. r = Inr True"
    and "\<forall>i<length calls. list_all kept
           (submitted_row (length ws + i) (fst (snd (calls ! i))) (snd (snd (calls ! i))))"
  shows "\<exists>rows. excel_file s' = Book (Some (ws @ rows)) \<and> length rows = length calls
           \<and> list_all (list_all kept_atom) rows
           \<and> (\<forall>i<length calls. map JAtom (rows ! i)
                 = submitted_row (length ws + i) (fst (snd (calls ! i)))
                     (snd (snd (calls ! i))))"
  using assms
proof (induction calls arbitrary: s ws rs s')
  case Nil
  then show ?case by simp
next
  case (Cons call rest)
  obtain e filters output0 where call: "call = (e, filters, output0)" by (cases call)
  obtain r s1 where first: "write_to_excel_with_sync e filters output0 s = (r, s1)"
    by (cases "write_to_excel_with_sync e filters output0 s")
  obtain rs1 s2 where others: "export_calls rest s1 = (rs1, s2)"
    by (cases "export_calls rest s1")
  have rs: "rs = r # rs1" and s': "s' = s2"
    using Cons.prems(6) call first others by simp_all
  have r: "r = Inr True" and rs1: "\<forall>r\<in>set rs1. r = Inr True"
    using Cons.prems(7) rs by simp_all
  have new: "list_all kept (submitted_row (length ws) filters output0)"
    using Cons.prems(8) [rule_format, of 0] call by simp
  from export_step_Book [OF Cons.prems(1-5) new first [unfolded r]]
  obtain row where s1: "excel_file s1 = Book (Some (ws @ [row]))"
    and row: "map JAtom row = submitted_row (length ws) filters output0"
    and krow: "list_all kept_atom row"
    by blast
  have "length (map JAtom row) = 10" unfolding row by (rule length_submitted_row)
  then have len: "length row = 10" by simp
  have t1: "ws @ [row] \<noteq> []" by simp
  have t2: "cell_value 1 1 (ws @ [row]) \<noteq> ANone"
    using Cons.prems(2,3) by (simp add: cell_value_append)
  have t3: "\<forall>r\<in>set (ws @ [row]). length r = 10"
    using Cons.prems(4) len by simp
  have t4: "list_all (list_all kept_atom) (ws @ [row])"
    using Cons.prems(5) krow by simp
  have t5: "\<forall>i<length rest. list_all kept
           (submitted_row (length (ws @ [row]) + i) (fst (snd (rest ! i)))
              (snd (snd (rest ! i))))"
  proof (intro allI impI)
    fix i assume "i < length rest"
    then have "Suc i < length (call # rest)" by simp
    from Cons.prems(8) [rule_format, OF this]
    show "list_all kept (submitted_row (length (ws @ [row]) + i) (fst (snd (rest ! i)))
              (snd (snd (rest ! i))))"
      by simp
  qed
  from Cons.IH [OF s1 t1 t2 t3 t4 others rs1 t5]
  obtain rows where x: "excel_file s2 = Book (Some ((ws @ [row]) @ rows))"
    and n: "length rows = length rest"
    and krows: "list_all (list_all kept_atom) rows"
    and each: "\<forall>i<length rest. map JAtom (rows ! i)
                 = submitted_row (length (ws @ [row]) + i) (fst (snd (rest ! i)))
                     (snd (snd (rest ! i)))"
    by blast
  have "\<forall>i<length (call # rest). map JAtom ((row # rows) ! i)
          = submitted_row (length ws + i) (fst (snd ((call # rest) ! i)))
              (snd (snd ((call # rest) ! i)))"
  proof (intro allI impI)
    fix i assume i: "i < length (call # rest)"
    show "map JAtom ((row # rows) ! i)
          = submitted_row (length ws + i) (fst (snd ((call # rest) ! i)))
              (snd (snd ((call # rest) ! i)))"
    proof (cases i)
      case 0
      then show ?thesis using row call by simp
    next
      case (Suc j)
      then have "j < length rest" using i by simp
      with each Suc show ?thesis by simp
    qed
  qed
  moreover have "excel_file s' = Book (Some (ws @ (row # rows)))" using x s' by simp
  moreover have "length (row # rows) = length (call # rest)" using n by simp
  moreover have "list_all (list_all kept_atom) (row # rows)" using krow krows by simp
  ultimately show ?case by blast
qed

lemma first_fault_index:
  assumes "\<forall>i. cell_fault e 1 (AInt i) = None"
  shows "first_fault e (Suc 0) (JAtom (AInt i) # vs) = first_fault e 2 vs"
  using assms by (simp add: numeral_2_eq_2)

lemma fst_sync_write_row:
  assumes "\<forall>i. cell_fault e 1 (AInt i) = None"
  shows "fst (sync_write_row e t ws) = first_fault e 2 (sync_cells t)"
proof -
  let ?vs = "JAtom (AInt (int (max_row ws))) # sync_cells t"
  obtain f w where wc: "write_cells e (Suc (max_row ws)) (Suc 0) ?vs ws = (f, w)"
    by (cases "write_cells e (Suc (max_row ws)) (Suc 0) ?vs ws")
  have "f = first_fault e (Suc 0) ?vs"
    using fst_write_cells [of e "Suc (max_row ws)" "Suc 0" ?vs ws] wc by simp
  then have "f = first_fault e 2 (sync_cells t)"
    using first_fault_index [OF assms] by simp
  moreover have "fst (sync_write_row e t ws) = f"
    using wc by (cases f) (simp_all add: sync_write_row_def Let_def del: write_cells.simps)
  ultimately show ?thesis by simp
qed

lemma sync_loop_remaining:
  assumes "\<forall>i. cell_fault e 1 (AInt i) = None"
    and "sync_loop e es st = Inr st'"
    and "\<forall>x\<in>set (remaining_entries st). write_fails e x"
  shows "\<forall>x\<in>set (remaining_entries st'). write_fails e x"
  using assms(2,3)
proof (induction es arbitrary: st)
  case Nil
  then show ?case by simp
next
  case (Cons entry rest)
  from Cons.prems(1) obtain d where d: "entry = JObj d"
    by (cases entry) simp_all
  from Cons.prems(1) d obtain t where t: "atoms_of (row_tuple d) = Some t"
    by (cases "atoms_of (row_tuple d)") simp_all
  show ?case
  proof (cases "tuple_in t (existing_tuples st)")
    case True
    then have "sync_loop e rest st = Inr st'" using Cons.prems(1) d t by simp
    from Cons.IH [OF this Cons.prems(2)] show ?thesis .
  next
    case False
    obtain f w where wr: "sync_write_row e t (sheet st) = (f, w)"
      by (cases "sync_write_row e t (sheet st)")
    have f: "f = first_fault e 2 (sync_cells t)"
      using fst_sync_write_row [OF assms(1), of t "sheet st"] wr by simp
    show ?thesis
    proof (cases f)
      case None
      then have "sync_loop e rest
          (st\<lparr>sheet := w, existing_tuples := t # existing_tuples st, added := added st + 1\<rparr>)
          = Inr st'"
        using Cons.prems(1) d t False wr by simp
      from Cons.IH [OF this] Cons.prems(2) show ?thesis by simp
    next
      case (Some err)
      then have wf: "write_fails e entry"
        using f d t by (simp add: write_fails_def)
      let ?st = "st\<lparr>sheet := w, remaining_entries := remaining_entries st @ [entry]\<rparr>"
      have keep: "\<forall>x\<in>set (remaining_entries ?st). write_fails e x"
        using Cons.prems(2) wf by simp
      show ?thesis
      proof (cases "err = PermissionError")
        case True
        then have "st' = ?st" using Cons.prems(1) d t False wr Some by simp
        then show ?thesis using keep by simp
      next
        case False
        then have "sync_loop e rest ?st = Inr st'"
          using Cons.prems(1) d t \<open>\<not> tuple_in t (existing_tuples st)\<close> wr Some
          by (cases err) simp_all
        from Cons.IH [OF this keep] show ?thesis .
      qed
    qed
  qed
qed

lemma sync_loop_all_fail:
  assumes "\<forall>i. cell_fault e 1 (AInt i) = None"
    and "\<forall>x\<in>set es. write_fails e x"
  shows "\<exists>st'. sync_loop e es st = Inr st' \<and> added st' = added st"
  using assms(2)
proof (induction es arbitrary: st)
  case Nil
  show ?case by simp
next
  case (Cons entry rest)
  have wf: "write_fails e entry" and rest: "\<forall>x\<in>set rest. write_fails e x"
    using Cons.prems by simp_all
  from wf obtain d where d: "entry = JObj d"
    by (cases entry) (simp_all add: write_fails_def)
  from wf d obtain t where t: "atoms_of (row_tuple d) = Some t"
    by (cases "atoms_of (row_tuple d)") (simp_all add: write_fails_def)
  from wf d t obtain err where err: "first_fault e 2 (sync_cells t) = Some err"
    by (auto simp: write_fails_def)
  show ?case
  proof (cases "tuple_in t (existing_tuples st)")
    case True
    then have "sync_loop e (entry # rest) st = sync_loop e rest st" using d t by simp
    then show ?thesis using Cons.IH [OF rest, of st] by simp
  next
    case False
    obtain f w where wr: "sync_write_row e t (sheet st) = (f, w)"
      by (cases "sync_write_row e t (sheet st)")
    have f: "f = Some err"
      using fst_sync_write_row [OF assms(1), of t "sheet st"] wr err by simp
    let ?st = "st\<lparr>sheet := w, remaining_entries := remaining_entries st @ [entry]\<rparr>"
    show ?thesis
    proof (cases "err = PermissionError")
      case True
      then have "sync_loop e (entry # rest) st = Inr ?st" using d t False wr f by simp
      then show ?thesis by simp
    next
      case nperm: False
      then have "sync_loop e (entry # rest) st = sync_loop e rest ?st"
        using d t False wr f by (cases err) simp_all
      then show ?thesis using Cons.IH [OF rest, of ?st] by simp
    qed
  qed
qed

lemma initialize_excel_Inl:
  assumes "initialize_excel e x0 = (Inl err, x)"
  shows "x = x0"
  using assms
  by (auto simp: initialize_excel_def wb_save_def Let_def
      split: xlsx_file.splits option.splits if_splits)

lemma initialize_excel_Inr:
  assumes "initialize_excel e x0 = (Inr ws, x)"
  shows "\<exists>d. x = Book d"
  using assms
  by (auto simp: initialize_excel_def wb_save_def Let_def
      split: xlsx_file.splits option.splits if_splits)

lemma initialize_excel_Book_cases:
  "initialize_excel e (Book d) = (Inl PermissionError, Book d)
   \<or> (\<exists>ws. initialize_excel e (Book d) = (Inr ws, Book d))"
  by (simp add: initialize_excel_def Let_def)

lemma sync_second_call:
  assumes idx: "\<forall>i. cell_fault e 1 (AInt i) = None"
    and rem: "\<forall>x\<in>set rem. write_fails e x"
  shows "\<exists>rem'. sync_missing_entries e \<lparr>backup_file = Json (JArr rem), excel_file = Book d\<rparr>
           = (Inr 0, \<lparr>backup_file = Json (JArr rem'), excel_file = Book d\<rparr>)"
proof (cases "rem = []")
  case True
  then show ?thesis by (simp add: sync_missing_entries_def)
next
  case False
  from initialize_excel_Book_cases [of e d] show ?thesis
  proof
    assume "initialize_excel e (Book d) = (Inl PermissionError, Book d)"
    then show ?thesis using False by (simp add: sync_missing_entries_def)
  next
    assume "\<exists>ws. initialize_excel e (Book d) = (Inr ws, Book d)"
    then obtain ws where init: "initialize_excel e (Book d) = (Inr ws, Book d)" by blast
    let ?st0 = "\<lparr>sheet = ws, existing_tuples = map (drop 1) (iter_rows 2 ws),
                 remaining_entries = [], added = 0\<rparr>"
    from sync_loop_all_fail [OF idx rem, of ?st0]
    obtain st where loop: "sync_loop e rem ?st0 = Inr st" and "added st = added ?st0" by blast
    then have "added st = 0" by simp
    then show ?thesis
      using False init loop by (simp add: sync_missing_entries_def Let_def)
  qed
qed

lemma ws_cell_last_row_any:
  assumes "ws_cell e (Suc (length B)) (Suc (length p)) v (B @ [p]) = (f, w)"
  shows "\<exists>a. w = B @ [p @ [a]]"
  using assms unfolding ws_cell_def Let_def touch_cell_last_row pad_row_next
  by (auto simp: set_value_last_row split: json.splits atom.splits option.splits)

lemma write_cells_last_row_any:
  assumes "write_cells e (Suc (length B)) (Suc (length p)) vs (B @ [p]) = (f, w)"
  shows "\<exists>q. w = B @ [p @ q]"
  using assms
proof (induction vs arbitrary: p)
  case Nil
  then have "w = B @ [p @ []]" by simp
  then show ?case by blast
next
  case (Cons v vs)
  obtain f1 w1 where c1: "ws_cell e (Suc (length B)) (Suc (length p)) v (B @ [p]) = (f1, w1)"
    by (cases "ws_cell e (Suc (length B)) (Suc (length p)) v (B @ [p])")
  from ws_cell_last_row_any [OF c1] obtain a where w1: "w1 = B @ [p @ [a]]" by blast
  show ?case
  proof (cases f1)
    case (Some err)
    then have "w = w1" using Cons.prems c1 by simp
    then show ?thesis using w1 by blast
  next
    case None
    then have "write_cells e (Suc (length B)) (Suc (length (p @ [a]))) vs (B @ [p @ [a]])
        = (f, w)"
      using Cons.prems c1 w1 by simp
    from Cons.IH [OF this] obtain q where "w = B @ [(p @ [a]) @ q]" by blast
    then have "w = B @ [p @ (a # q)]" by simp
    then show ?thesis by blast
  qed
qed

lemma length_touch_cell: "length ws \<le> length (touch_cell r c ws)"
  by (simp add: touch_cell_def Let_def)

lemma sync_write_row_appends:
  assumes "ws \<noteq> []"
  shows "\<exists>row. snd (sync_write_row e t ws) = ws @ [row] \<and> row \<noteq> []
           \<and> (cell_fault e 1 (AInt (int (length ws))) = None
                \<longrightarrow> hd row = AInt (int (length ws)))"
proof -
  have rows: "max_row ws = length ws" and above: "rows_above ws = ws"
    using assms by (simp_all add: max_row_def rows_above_def)
  let ?k = "AInt (int (length ws))"
  have touch: "touch_cell (Suc (length ws)) (Suc 0) ws = ws @ [[ANone]]"
    using touch_cell_new_row [of ws "Suc 0"] rows above by (simp add: pad_row_def)
  show ?thesis
  proof (cases "cell_fault e 1 ?k")
    case (Some err)
    then have "sync_write_row e t ws = (Some err, ws @ [[ANone]])"
      using touch rows by (simp add: sync_write_row_def Let_def ws_cell_def)
    then show ?thesis using Some by simp
  next
    case None
    have "set_value (Suc (length ws)) (Suc 0) ?k (ws @ [[ANone]]) = ws @ [[?k]]"
      using set_value_last_row [of ws "Suc 0" ?k "[ANone]"] by simp
    then have first: "ws_cell e (Suc (length ws)) (Suc 0) (JAtom ?k) ws = (None, ws @ [[?k]])"
      using touch None by (simp add: ws_cell_def Let_def)
    obtain f w where wc: "write_cells e (Suc (length ws)) (Suc (length [?k])) (sync_cells t)
        (ws @ [[?k]]) = (f, w)"
      by (cases "write_cells e (Suc (length ws)) (Suc (length [?k])) (sync_cells t)
        (ws @ [[?k]])")
    from write_cells_last_row_any [OF wc] obtain q where w: "w = ws @ [[?k] @ q]" by blast
    have all: "write_cells e (Suc (max_row ws)) (Suc 0) (JAtom ?k # sync_cells t) ws = (f, w)"
      using first wc rows by simp
    show ?thesis
    proof (cases f)
      case (Some err)
      then have "sync_write_row e t ws = (Some err, w)"
        using all rows by (simp add: sync_write_row_def Let_def del: write_cells.simps)
      then show ?thesis using w by simp
    next
      case fine: None
      have "format_row (Suc (length ws)) w = ws @ [pad_row 10 (?k # q)]"
        unfolding format_row_def w touch_cell_last_row by (simp add: length_EXCEL_COLUMNS)
      then have "sync_write_row e t ws = (None, ws @ [pad_row 10 (?k # q)])"
        using all rows fine by (simp add: sync_write_row_def Let_def del: write_cells.simps)
      then show ?thesis by (simp add: pad_row_def)
    qed
  qed
qed

lemma sync_loop_sheet:
  assumes "sync_loop e es st = Inr st'" and "sheet st \<noteq> []"
  shows "\<exists>new. sheet st' = sheet st @ new \<and> added st' \<le> added st + length new
           \<and> (\<forall>j<length new. new ! j \<noteq> []
                 \<and> (cell_fault e 1 (AInt (int (length (sheet st) + j))) = None
                      \<longrightarrow> hd (new ! j) = AInt (int (length (sheet st) + j))))"
  using assms
proof (induction es arbitrary: st)
  case Nil
  then have "sheet st' = sheet st @ [] \<and> added st' \<le> added st + length ([] :: atom list list)"
    by simp
  then show ?case by (intro exI [of _ "[]"]) simp
next
  case (Cons entry rest)
  from Cons.prems(1) obtain d where d: "entry = JObj d"
    by (cases entry) simp_all
  from Cons.prems(1) d obtain t where t: "atoms_of (row_tuple d) = Some t"
    by (cases "atoms_of (row_tuple d)") simp_all
  show ?case
  proof (cases "tuple_in t (existing_tuples st)")
    case True
    then have "sync_loop e rest st = Inr st'" using Cons.prems(1) d t by simp
    from Cons.IH [OF this Cons.prems(2)] show ?thesis .
  next
    case False
    obtain f w where wr: "sync_write_row e t (sheet st) = (f, w)"
      by (cases "sync_write_row e t (sheet st)")
    from sync_write_row_appends [OF Cons.prems(2), of e t] wr
    obtain row where w: "w = sheet st @ [row]" and ne: "row \<noteq> []"
      and idx: "cell_fault e 1 (AInt (int (length (sheet st)))) = None
                \<longrightarrow> hd row = AInt (int (length (sheet st)))"
      by auto
    have stop: ?thesis if "st' = st1" and "sheet st1 = w" and "added st1 \<le> added st + 1"
      for st1
    proof -
      have "sheet st' = sheet st @ [row] \<and> added st' \<le> added st + length [row]"
        using that w by simp
      moreover have "\<forall>j<length [row]. [row] ! j \<noteq> []
          \<and> (cell_fault e 1 (AInt (int (length (sheet st) + j))) = None
               \<longrightarrow> hd ([row] ! j) = AInt (int (length (sheet st) + j)))"
        using ne idx by simp
      ultimately show ?thesis by blast
    qed
    have go: ?thesis if run: "sync_loop e rest st1 = Inr st'" and sh: "sheet st1 = w"
      and ad: "added st1 \<le> added st + 1" for st1
    proof -
      have "sheet st1 \<noteq> []" using sh w by simp
      from Cons.IH [OF run this]
      obtain new where n1: "sheet st' = sheet st1 @ new"
        and n2: "added st' \<le> added st1 + length new"
        and n3: "\<forall>j<length new. new ! j \<noteq> []
                 \<and> (cell_fault e 1 (AInt (int (length (sheet st1) + j))) = None
                      \<longrightarrow> hd (new ! j) = AInt (int (length (sheet st1) + j)))"
        by blast
      have a: "sheet st' = sheet st @ (row # new)" using n1 sh w by simp
      have b: "added st' \<le> added st + length (row # new)" using n2 ad by simp
      have c: "\<forall>j<length (row # new). (row # new) ! j \<noteq> []
          \<and> (cell_fault e 1 (AInt (int (length (sheet st) + j))) = None
               \<longrightarrow> hd ((row # new) ! j) = AInt (int (length (sheet st) + j)))"
      proof (intro allI impI)
        fix j assume j: "j < length (row # new)"
        show "(row # new) ! j \<noteq> []
          \<and> (cell_fault e 1 (AInt (int (length (sheet st) + j))) = None
               \<longrightarrow> hd ((row # new) ! j) = AInt (int (length (sheet st) + j)))"
        proof (cases j)
          case 0
          then show ?thesis using ne idx by simp
        next
          case (Suc i)
          then have "i < length new" using j by simp
          with n3 Suc sh w show ?thesis by simp
        qed
      qed
      from a b c show ?thesis by blast
    qed
    show ?thesis
    proof (cases f)
      case None
      let ?st1 = "st\<lparr>sheet := w, existing_tuples := t # existing_tuples st,
                     added := added st + 1\<rparr>"
      have "sync_loop e rest ?st1 = Inr st'"
        using Cons.prems(1) d t False wr None by simp
      then show ?thesis by (rule go) simp_all
    next
      case (Some err)
      let ?st1 = "st\<lparr>sheet := w, remaining_entries := remaining_entries st @ [entry]\<rparr>"
      show ?thesis
      proof (cases "err = PermissionError")
        case True
        then have "st' = ?st1" using Cons.prems(1) d t False wr Some by simp
        then show ?thesis by (rule stop) simp_all
      next
        case nperm: False
        then have "sync_loop e rest ?st1 = Inr st'"
          using Cons.prems(1) d t False wr Some by (cases err) simp_all
        then show ?thesis by (rule go) simp_all
      qed
    qed
  qed
qed

lemma initialize_excel_nonempty:
  assumes "initialize_excel e x0 = (Inr ws, x)"
  shows "ws \<noteq> []"
proof (cases x0)
  case NoBook
  then show ?thesis
    using assms length_touch_cell [of "[header_row]" 1 "length EXCEL_COLUMNS"]
    by (auto simp: initialize_excel_def wb_save_def Let_def format_header_def ws_append_def
        split: option.splits)
next
  case BadBook
  then show ?thesis using assms by (simp add: initialize_excel_def)
next
  case (Book d)
  let ?l = "case d of Some ws \<Rightarrow> load_sheet e ws | None \<Rightarrow> []"
  show ?thesis
  proof (cases "max_row ?l = 1 \<and> cell_value 1 1 ?l = ANone")
    case True
    then have "ws = format_header (ws_append header_row (touch_cell 1 1 ?l))"
      using assms Book by (auto simp: initialize_excel_def Let_def split: if_splits)
    then show ?thesis
      using length_touch_cell [of "ws_append header_row (touch_cell 1 1 ?l)" 1
          "length EXCEL_COLUMNS"]
      by (auto simp: format_header_def ws_append_def)
  next
    case False
    then have ws: "ws = ?l"
      using assms Book by (auto simp: initialize_excel_def Let_def split: if_splits)
    have "?l \<noteq> []"
    proof
      assume "?l = []"
      then have "max_row ?l = 1 \<and> cell_value 1 1 ?l = ANone"
        by (simp add: max_row_def cell_value_def)
      with False show False by simp
    qed
    then show ?thesis using ws by simp
  qed
qed

lemma sync_rows_stamped:
  assumes run: "sync_missing_entries e s = (Inr n, s')" and pos: "0 < n"
  shows "\<exists>ws0 x ws. initialize_excel e (excel_file s) = (Inr ws0, x)
           \<and> excel_file s' = Book (Some ws)
           \<and> max_row ws0 + n \<le> length ws
           \<and> (\<forall>p. max_row ws0 < p \<and> p \<le> length ws
                   \<and> cell_fault e 1 (AInt (int (p - 1))) = None
                 \<longrightarrow> cell_value p 1 ws = AInt (int (p - 1)))"
proof -
  obtain backup_data where bd: "backup_file s = Json backup_data"
    using run pos by (cases "backup_file s") (simp_all add: sync_missing_entries_def)
  have nf: "\<not> falsy backup_data"
    using run pos bd by (auto simp: sync_missing_entries_def)
  obtain i x where init: "initialize_excel e (excel_file s) = (i, x)"
    by (cases "initialize_excel e (excel_file s)")
  obtain ws0 where i: "i = Inr ws0"
  proof (cases i)
    case (Inl err)
    then have False
      using run pos bd nf init by (cases err) (simp_all add: sync_missing_entries_def)
    then show ?thesis ..
  next
    case (Inr w)
    then show ?thesis using that by blast
  qed
  let ?st0 = "\<lparr>sheet = ws0, existing_tuples = map (drop 1) (iter_rows 2 ws0),
               remaining_entries = [], added = 0\<rparr>"
  obtain entries where it: "py_iter backup_data = Inr entries"
    using run bd nf init i
    by (cases "py_iter backup_data") (simp_all add: sync_missing_entries_def Let_def)
  obtain st where loop: "sync_loop e entries ?st0 = Inr st"
    using run bd nf init i it
    by (cases "sync_loop e entries ?st0") (simp_all add: sync_missing_entries_def Let_def)
  have n: "n = added st"
    using run bd nf init i it loop
    by (auto simp: sync_missing_entries_def Let_def split: if_splits sum.splits)
  have saved: "excel_file s' = Book (Some (auto_adjust_width (sheet st)))"
    using run bd nf init i it loop pos n
    by (auto simp: sync_missing_entries_def Let_def wb_save_def split: option.splits)
  have ne: "ws0 \<noteq> []" using init i initialize_excel_nonempty by blast
  then have rows: "max_row ws0 = length ws0" by (simp add: max_row_def)
  from sync_loop_sheet [OF loop] ne
  obtain new where sh: "sheet st = ws0 @ new" and ad: "added st \<le> length new"
    and each: "\<forall>j<length new. new ! j \<noteq> []
                 \<and> (cell_fault e 1 (AInt (int (length ws0 + j))) = None
                      \<longrightarrow> hd (new ! j) = AInt (int (length ws0 + j)))"
    by auto
  let ?ws = "auto_adjust_width (sheet st)"
  have ws: "?ws = map (pad_row 10) (ws0 @ new)"
    using sh ne by (simp add: auto_adjust_width_def length_EXCEL_COLUMNS)
  have len: "max_row ws0 + n \<le> length ?ws" using ws rows n ad by simp
  have stamped: "\<forall>p. max_row ws0 < p \<and> p \<le> length ?ws
                   \<and> cell_fault e 1 (AInt (int (p - 1))) = None
                 \<longrightarrow> cell_value p 1 ?ws = AInt (int (p - 1))"
  proof (intro allI impI)
    fix p
    assume a: "max_row ws0 < p \<and> p \<le> length ?ws
               \<and> cell_fault e 1 (AInt (int (p - 1))) = None"
    define j where "j = p - 1 - length ws0"
    have bounds: "length ws0 < p" "p \<le> length ws0 + length new"
      using a rows ws by simp_all
    have j: "j < length new" and p: "p - 1 = length ws0 + j"
      using bounds unfolding j_def by arith+
    have row: "new ! j \<noteq> [] \<and> hd (new ! j) = AInt (int (length ws0 + j))"
      using each j a p by simp
    have "?ws ! (p - 1) = pad_row 10 (new ! j)"
      using ws j p by (simp add: nth_append)
    moreover have "p - 1 < length ?ws" using a rows by arith
    moreover have "pad_row 10 (new ! j) \<noteq> [] \<and> pad_row 10 (new ! j) ! 0 = hd (new ! j)"
      using row by (cases "new ! j") (simp_all add: pad_row_def)
    ultimately show "cell_value p 1 ?ws = AInt (int (p - 1))"
      using row p by (simp add: cell_value_def)
  qed
  show ?thesis using init i saved len stamped by blast
qed

lemma markdown_to_text_b: "markdown_to_text ''b'' = ''b''"
  by (simp add: markdown_to_text_def stuff_to_remove_def)

lemma markdown_to_text_empty: "markdown_to_text [] = []"
  by (simp add: markdown_to_text_def stuff_to_remove_def)

lemma append_cells_kashi:
  "append_cells (Suc (Suc 0)) filters_kashi ''b'' = map JAtom row_kashi"
  by (simp add: append_cells_def filters_kashi_def row_kashi_def dict_get_def)

lemma append_cells_empty_output:
  "append_cells (Suc 0) filters_varanasi [] = map JAtom row_empty_written"
  by (simp add: append_cells_def filters_varanasi_def row_empty_written_def dict_get_def)

lemma length_header_row: "length header_row = 10"
  by (simp add: header_row_def length_EXCEL_COLUMNS)

lemma length_row_varanasi: "length row_varanasi = 10"
  by (simp add: row_varanasi_def)

lemma length_row_kashi: "length row_kashi = 10"
  by (simp add: row_kashi_def)

lemma header_cell: "cell_value 1 1 (header_row # rows) \<noteq> ANone"
  by (simp add: cell_value_def header_row_def EXCEL_COLUMNS_def)

lemma initialize_excel_header:
  assumes "\<not> load_locked e" and "list_all (list_all kept_atom) rows"
  shows "initialize_excel e (Book (Some (header_row # rows)))
         = (Inr (header_row # rows), Book (Some (header_row # rows)))"
proof -
  have "list_all (list_all kept_atom) (header_row # rows)"
    using assms(2) kept_header_row by simp
  then have "load_sheet e (header_row # rows) = header_row # rows" by (rule kept_sheet_load)
  then show ?thesis
    using assms(1) header_cell [of rows] by (simp add: initialize_excel_def Let_def)
qed

lemma append_second:
  "write_to_excel_with_sync env_ok filters_kashi ''b'' store_one_row
   = (Inr True, store_two_rows)"
proof -
  have b: "write_json_backup filters_kashi (markdown_to_text ''b'') (backup_file store_one_row)
      = Inr (Json (JArr [entry_varanasi, entry_kashi]))"
    by (simp add: write_json_backup_def markdown_to_text_b store_one_row_def
        entry_kashi_def filters_kashi_def)
  have init: "initialize_excel env_ok (excel_file store_one_row)
      = (Inr [header_row, row_varanasi], Book (Some [header_row, row_varanasi]))"
    by (simp add: store_one_row_def initialize_excel_header env_ok_def kept_row_varanasi)
  have row: "append_cells (max_row [header_row, row_varanasi]) filters_kashi
      (markdown_to_text ''b'') = map JAtom row_kashi"
    by (simp add: max_row_def markdown_to_text_b append_cells_kashi)
  have ff: "first_fault env_ok (Suc 0) (map JAtom row_kashi) = None"
    by (rule first_fault_no_cell_fault) (simp add: env_ok_def)
  have sv: "save_fault env_ok = None" by (simp add: env_ok_def)
  have "map (pad_row 10) (rows_above [header_row, row_varanasi]) = [header_row, row_varanasi]"
    by (simp add: rows_above_def pad_row_full length_header_row length_row_varanasi)
  then show ?thesis
    using write_to_excel_succeeds [OF b init row ff sv]
    by (simp add: store_two_rows_def kept_row_bind [OF kept_row_kashi])
qed

lemma export_two_calls:
  "export_calls two_calls fresh_store = ([Inr True, Inr True], store_two_rows)"
  using append_scenario append_second
  by (simp add: two_calls_def store_one_row_def)

lemma export_empty_output:
  "write_to_excel_with_sync env_ok filters_varanasi [] fresh_store
   = (Inr True, store_empty_output)"
proof -
  have b: "write_json_backup filters_varanasi (markdown_to_text []) (backup_file fresh_store)
      = Inr (Json (JArr [JObj (filters_varanasi
                                @ [(''generated_itinerary'', JAtom (AStr []))])]))"
    by (simp add: write_json_backup_def markdown_to_text_empty fresh_store_def
        filters_varanasi_def)
  have init: "initialize_excel env_ok (excel_file fresh_store)
      = (Inr [header_row], Book (Some [header_row]))"
    by (simp add: fresh_store_def initialize_excel_fresh env_ok_def)
  have row: "append_cells (max_row [header_row]) filters_varanasi (markdown_to_text [])
      = map JAtom row_empty_written"
    by (simp add: max_row_def markdown_to_text_empty append_cells_empty_output)
  have ff: "first_fault env_ok (Suc 0) (map JAtom row_empty_written) = None"
    by (rule first_fault_no_cell_fault) (simp add: env_ok_def)
  have sv: "save_fault env_ok = None" by (simp add: env_ok_def)
  have h: "map (pad_row 10) (rows_above [header_row]) = [header_row]"
    by (simp add: rows_above_def pad_row_full length_header_row)
  have "map bind_value row_empty_written = row_empty_written"
    by (simp add: row_empty_written_def)
  then show ?thesis
    using write_to_excel_succeeds [OF b init row ff sv] h
    by (simp add: store_empty_output_def)
qed

lemma read_empty_output:
  "read_sheet env_ok (excel_file store_empty_output) = Some [header_row, row_empty_read]"
proof -
  have "map (read_back env_ok) header_row = header_row"
    by (rule kept_row_read_back) (rule kept_header_row)
  moreover have "map (read_back env_ok) row_empty_written = row_empty_read"
    by (simp add: row_empty_written_def row_empty_read_def)
  ultimately show ?thesis
    by (simp add: read_sheet_def store_empty_output_def load_sheet_def)
qed

lemma row_tuple_varanasi:
  "atoms_of (row_tuple (filters_varanasi @ [(''generated_itinerary'', JAtom (AStr text_day1))]))
   = Some tuple_varanasi"
  by (simp add: row_tuple_def filters_varanasi_def dict_get_def tuple_varanasi_def)

lemma row_tuple_kashi:
  "atoms_of (row_tuple (filters_kashi @ [(''generated_itinerary'', JAtom (AStr ''b''))]))
   = Some tuple_kashi"
  by (simp add: row_tuple_def filters_kashi_def dict_get_def tuple_kashi_def)

lemma tuple_kashi_new: "\<not> tuple_in tuple_kashi [tuple_varanasi]"
  by (simp add: tuple_in_def tuple_kashi_def tuple_varanasi_def)

lemma tuple_in_empty: "\<not> tuple_in t []"
  by (simp add: tuple_in_def)

lemma sync_write_row_no_fault:
  assumes cells: "sync_cells t = map JAtom as"
    and ff: "first_fault e (Suc 0) (map JAtom (AInt (int (max_row ws)) # as)) = None"
  shows "sync_write_row e t ws
         = (None, rows_above ws @ [pad_row 10 (AInt (int (max_row ws)) # map bind_value as)])"
proof -
  let ?row = "AInt (int (max_row ws)) # as"
  let ?new = "AInt (int (max_row ws)) # map bind_value as"
  have wc: "write_cells e (Suc (max_row ws)) (Suc 0) (map JAtom ?row) ws
      = (None, rows_above ws @ [map bind_value ?row])"
    by (rule write_cells_no_fault [OF ff]) simp
  have fr: "format_row (Suc (max_row ws)) (rows_above ws @ [?new])
      = rows_above ws @ [pad_row 10 ?new]"
    unfolding format_row_def length_rows_above [symmetric] touch_cell_last_row
    by (simp add: length_EXCEL_COLUMNS)
  have "map JAtom ?row = JAtom (AInt (int (max_row ws))) # sync_cells t"
    using cells by simp
  then have "write_cells e (Suc (max_row ws)) (Suc 0)
      (JAtom (AInt (int (max_row ws))) # sync_cells t) ws = (None, rows_above ws @ [?new])"
    using wc by simp
  then show ?thesis
    using fr by (simp add: sync_write_row_def Let_def del: write_cells.simps)
qed

lemma sync_cells_varanasi: "sync_cells tuple_varanasi = map JAtom tuple_varanasi"
  by (simp add: sync_cells_def tuple_varanasi_def enumerate_eq_zip)

lemma sync_cells_kashi: "sync_cells tuple_kashi = map JAtom tuple_kashi"
  by (simp add: sync_cells_def tuple_kashi_def enumerate_eq_zip)

lemma sync_write_row_first:
  assumes "\<And>c a. cell_fault e c a = None"
  shows "sync_write_row e tuple_varanasi [header_row] = (None, [header_row, row_varanasi])"
proof -
  have ff: "first_fault e (Suc 0)
      (map JAtom (AInt (int (max_row [header_row])) # tuple_varanasi)) = None"
    by (rule first_fault_no_cell_fault) (rule assms)
  have "pad_row 10 (AInt 1 # map bind_value tuple_varanasi) = row_varanasi"
    by (simp add: pad_row_def tuple_varanasi_def row_varanasi_def text_day1_def)
  then show ?thesis
    using sync_write_row_no_fault [OF sync_cells_varanasi ff]
    by (simp add: rows_above_def max_row_def)
qed

lemma sync_write_row_second:
  assumes "\<And>c a. cell_fault e c a = None"
  shows "sync_write_row e tuple_kashi [header_row, row_varanasi]
         = (None, [header_row, row_varanasi, row_kashi])"
proof -
  have ff: "first_fault e (Suc 0)
      (map JAtom (AInt (int (max_row [header_row, row_varanasi])) # tuple_kashi)) = None"
    by (rule first_fault_no_cell_fault) (rule assms)
  have "pad_row 10 (AInt 2 # map bind_value tuple_kashi) = row_kashi"
    by (simp add: pad_row_def tuple_kashi_def row_kashi_def)
  then show ?thesis
    using sync_write_row_no_fault [OF sync_cells_kashi ff]
    by (simp add: rows_above_def max_row_def)
qed

lemma sync_write_row_varanasi:
  "sync_write_row env_ok tuple_varanasi [header_row] = (None, [header_row, row_varanasi])"
  by (rule sync_write_row_first) (simp add: env_ok_def)

lemma sync_loop_two_pending:
  assumes "\<And>c a. cell_fault e c a = None"
  shows "sync_loop e [entry_varanasi, entry_kashi]
      \<lparr>sheet = [header_row], existing_tuples = [], remaining_entries = [], added = 0\<rparr>
      = Inr \<lparr>sheet = [header_row, row_varanasi, row_kashi],
             existing_tuples = [tuple_kashi, tuple_varanasi],
             remaining_entries = [], added = 2\<rparr>"
  by (simp add: entry_varanasi_def entry_kashi_def row_tuple_varanasi row_tuple_kashi
      tuple_kashi_new sync_write_row_first [OF assms] sync_write_row_second [OF assms]
      tuple_in_empty)

lemma adjust_three_rows:
  "auto_adjust_width [header_row, row_varanasi, row_kashi]
   = [header_row, row_varanasi, row_kashi]"
  by (simp add: auto_adjust_width_def length_EXCEL_COLUMNS pad_row_full length_header_row
      length_row_varanasi length_row_kashi)

lemma header_only_tuples: "map (drop (Suc 0)) (iter_rows 2 [header_row]) = []"
  by (simp add: iter_rows_def)

lemma sync_two_pending:
  "sync_missing_entries env_ok store_two_pending = (Inr 2, store_synced)"
proof -
  have init: "initialize_excel env_ok (Book (Some [header_row]))
      = (Inr [header_row], Book (Some [header_row]))"
    by (rule initialize_excel_header) (simp_all add: env_ok_def)
  have loop: "sync_loop env_ok [entry_varanasi, entry_kashi]
      \<lparr>sheet = [header_row], existing_tuples = [], remaining_entries = [], added = 0\<rparr>
      = Inr \<lparr>sheet = [header_row, row_varanasi, row_kashi],
             existing_tuples = [tuple_kashi, tuple_varanasi],
             remaining_entries = [], added = 2\<rparr>"
    by (rule sync_loop_two_pending) (simp add: env_ok_def)
  have sv: "save_fault env_ok = None" by (simp add: env_ok_def)
  show ?thesis
    by (simp add: sync_missing_entries_def store_two_pending_def init header_only_tuples loop
        Let_def adjust_three_rows wb_save_def sv store_synced_def del: sync_loop.simps)
qed

lemma sync_save_refused:
  "sync_missing_entries env_save_refused store_two_pending
   = (Inl PermissionError, store_two_pending)"
proof -
  have init: "initialize_excel env_save_refused (Book (Some [header_row]))
      = (Inr [header_row], Book (Some [header_row]))"
    by (rule initialize_excel_header) (simp_all add: env_save_refused_def)
  have loop: "sync_loop env_save_refused [entry_varanasi, entry_kashi]
      \<lparr>sheet = [header_row], existing_tuples = [], remaining_entries = [], added = 0\<rparr>
      = Inr \<lparr>sheet = [header_row, row_varanasi, row_kashi],
             existing_tuples = [tuple_kashi, tuple_varanasi],
             remaining_entries = [], added = 2\<rparr>"
    by (rule sync_loop_two_pending) (simp add: env_save_refused_def)
  have sv: "save_fault env_save_refused = Some PermissionError"
    by (simp add: env_save_refused_def)
  show ?thesis
    by (simp add: sync_missing_entries_def store_two_pending_def init header_only_tuples loop
        Let_def wb_save_def sv del: sync_loop.simps)
qed

lemma sync_file_locked:
  "sync_missing_entries env_file_locked store_two_pending = (Inr 0, store_two_pending)"
  by (simp add: sync_missing_entries_def store_two_pending_def initialize_excel_def
      env_file_locked_def)

lemma export_save_refused:
  "write_to_excel_with_sync env_save_refused filters_kashi ''b'' store_one_row
   = (Inr False, store_one_row\<lparr>backup_file := Json (JArr [entry_varanasi, entry_kashi])\<rparr>)"
proof -
  have b: "write_json_backup filters_kashi (markdown_to_text ''b'') (backup_file store_one_row)
      = Inr (Json (JArr [entry_varanasi, entry_kashi]))"
    by (simp add: write_json_backup_def markdown_to_text_b store_one_row_def
        entry_kashi_def filters_kashi_def)
  have init: "initialize_excel env_save_refused (Book (Some [header_row, row_varanasi]))
      = (Inr [header_row, row_varanasi], Book (Some [header_row, row_varanasi]))"
    by (rule initialize_excel_header) (simp_all add: env_save_refused_def kept_row_varanasi)
  have sv: "save_fault env_save_refused = Some PermissionError"
    by (simp add: env_save_refused_def)
  obtain f w where wc: "write_cells env_save_refused
      (Suc (max_row [header_row, row_varanasi])) (Suc 0)
      (append_cells (max_row [header_row, row_varanasi]) filters_kashi ''b'')
      [header_row, row_varanasi] = (f, w)"
    by (cases "write_cells env_save_refused
      (Suc (max_row [header_row, row_varanasi])) (Suc 0)
      (append_cells (max_row [header_row, row_varanasi]) filters_kashi ''b'')
      [header_row, row_varanasi]")
  have x: "excel_file store_one_row = Book (Some [header_row, row_varanasi])"
    by (simp add: store_one_row_def)
  show ?thesis
    using b init wc sv x
    by (cases f)
      (simp_all add: write_to_excel_with_sync_def Let_def next_index_max_row wb_save_def
        markdown_to_text_b del: write_cells.simps)
qed

section \<open>The claims about the export service and the generation client\<close>

text \<open>
  C1. Whatever the filters and the output, and whatever happens to the workbook, a call
  of \<^verbatim>\<open>write_to_excel_with_sync\<close> on a backup log (a JSON array file, or an absent file
  or one whose text is not JSON, which count as the empty log) returns a boolean and leaves the
  log with exactly one more entry: the old entries followed by the new one.
\<close>

theorem backup_gains_one_entry:
  assumes "is_backup_log (backup_file s)"
  shows "\<exists>r s'. write_to_excel_with_sync e filters output0 s = (Inr r, s')
           \<and> log_entries (backup_file s') = log_entries (backup_file s) @ [backup_entry filters output0]
           \<and> length (log_entries (backup_file s')) = length (log_entries (backup_file s)) + 1"
proof -
  let ?b = "Json (JArr (log_entries (backup_file s) @ [backup_entry filters output0]))"
  have "write_json_backup filters (markdown_to_text output0) (backup_file s) = Inr ?b"
    using assms by (rule write_json_backup_log)
  from write_to_excel_backup_first [OF this, of e] obtain r where
    r: "fst (write_to_excel_with_sync e filters output0 s) = Inr r"
    and b: "backup_file (snd (write_to_excel_with_sync e filters output0 s)) = ?b"
    by blast
  have "write_to_excel_with_sync e filters output0 s
      = (Inr r, snd (write_to_excel_with_sync e filters output0 s))"
    using r by (metis prod.collapse)
  then have "write_to_excel_with_sync e filters output0 s
      = (Inr r, snd (write_to_excel_with_sync e filters output0 s))
    \<and> log_entries (backup_file (snd (write_to_excel_with_sync e filters output0 s)))
      = log_entries (backup_file s) @ [backup_entry filters output0]"
    using b by (simp add: log_entries_def)
  then show ?thesis by (metis length_append_singleton Suc_eq_plus1)
qed

text \<open>The theorem with the workbook locked and one entry already in the log.\<close>

theorem backup_gains_one_entry_witness:
  "is_backup_log (backup_file store_one_row)
   \<and> (\<exists>r s'. write_to_excel_with_sync env_file_locked filters_kashi ''b'' store_one_row
                 = (Inr r, s')
         \<and> length (log_entries (backup_file s')) = 2)"
proof -
  have h: "is_backup_log (backup_file store_one_row)"
    by (simp add: is_backup_log_def store_one_row_def)
  have "length (log_entries (backup_file store_one_row)) = 1"
    by (simp add: log_entries_def store_one_row_def)
  then show ?thesis
    using h backup_gains_one_entry [OF h, of env_file_locked filters_kashi "''b''"] by auto
qed

text \<open>
  C2, evaluated where the code departs from it. Two entries wait in the log and the
  workbook is open in another program that lets it be read and refuses the write. The
  loop fills both rows in memory, where nothing can be locked; the lock error comes
  at \<^verbatim>\<open>wb.save\<close>, where the rows are written into the spreadsheet file, and that call
  stands outside every \<^verbatim>\<open>try\<close>: \<^verbatim>\<open>sync_missing_entries\<close> raises \<^verbatim>\<open>PermissionError\<close>
  instead of returning, and the log is not rewritten. The same refusal in
  \<^verbatim>\<open>write_to_excel_with_sync\<close> is caught and gives false.
\<close>

theorem sync_raises_on_refused_save:
  "sync_missing_entries env_save_refused store_two_pending
   = (Inl PermissionError, store_two_pending)
   \<and> write_to_excel_with_sync env_save_refused filters_kashi ''b'' store_one_row
       = (Inr False,
          store_one_row\<lparr>backup_file := Json (JArr [entry_varanasi, entry_kashi])\<rparr>)"
  using sync_save_refused export_save_refused by simp

text \<open>
  C3. \<^verbatim>\<open>write_to_excel_with_sync\<close> raises only what the backup step before the \<^verbatim>\<open>try\<close>
  raises, never anything from the workbook steps. On a backup log it returns a
  boolean: true exactly when opening the workbook, writing the ten cells and saving all
  went through, and false when the file is locked for loading or saving or anything
  else is raised there.
\<close>

theorem write_to_excel_never_raises:
  "fst (write_to_excel_with_sync e filters output0 s) =
     (case write_json_backup filters (markdown_to_text output0) (backup_file s) of
        Inl err \<Rightarrow> Inl err
      | Inr b \<Rightarrow>
          Inr (case initialize_excel e (excel_file s) of
                 (Inl err, x) \<Rightarrow> False
               | (Inr ws, x) \<Rightarrow>
                   first_fault e 1 (append_cells (max_row ws) filters (markdown_to_text output0))
                     = None
                   \<and> save_fault e = None))
   \<and> (is_backup_log (backup_file s) \<longrightarrow>
        (\<exists>r. fst (write_to_excel_with_sync e filters output0 s) = Inr r))
   \<and> (is_backup_log (backup_file s) \<and> excel_file s \<noteq> NoBook \<and> load_locked e \<longrightarrow>
        fst (write_to_excel_with_sync e filters output0 s) = Inr False)
   \<and> (is_backup_log (backup_file s) \<and> save_fault e \<noteq> None \<longrightarrow>
        fst (write_to_excel_with_sync e filters output0 s) = Inr False)"
proof -
  let ?out = "markdown_to_text output0"
  let ?steps = "case initialize_excel e (excel_file s) of
                 (Inl err, x) \<Rightarrow> False
               | (Inr ws, x) \<Rightarrow>
                   first_fault e 1 (append_cells (max_row ws) filters ?out) = None
                   \<and> save_fault e = None"
  have "fst (write_to_excel_with_sync e filters output0 s) =
     (case write_json_backup filters ?out (backup_file s) of
        Inl err \<Rightarrow> Inl err
      | Inr b \<Rightarrow>
          Inr (case initialize_excel e (excel_file s) of
                 (Inl err, x) \<Rightarrow> False
               | (Inr ws, x) \<Rightarrow>
                   fst (write_cells e (max_row ws + 1) 1
                         (append_cells (max_row ws) filters ?out) ws) = None
                   \<and> save_fault e = None))"
    by (auto simp: write_to_excel_with_sync_def Let_def next_index_max_row wb_save_def
        split: prod.splits sum.splits option.splits)
  then have main: "fst (write_to_excel_with_sync e filters output0 s) =
     (case write_json_backup filters ?out (backup_file s) of
        Inl err \<Rightarrow> Inl err | Inr b \<Rightarrow> Inr ?steps)"
    by (simp add: fst_write_cells split: sum.splits prod.splits)
  have log: "fst (write_to_excel_with_sync e filters output0 s) = Inr ?steps"
    if "is_backup_log (backup_file s)"
    using main write_json_backup_log [OF that, of filters output0] by simp
  have locked: "\<not> ?steps" if "excel_file s \<noteq> NoBook" and "load_locked e"
    using that by (cases "excel_file s") (simp_all add: initialize_excel_def)
  have unsaved: "\<not> ?steps" if "save_fault e \<noteq> None"
    using that
    by (cases "excel_file s")
      (auto simp: initialize_excel_def wb_save_def Let_def split: option.splits prod.splits
        sum.splits)
  show ?thesis using main log locked unsaved by auto
qed

text \<open>The theorem with the workbook locked: the call returns false.\<close>

theorem write_to_excel_never_raises_witness:
  "is_backup_log (backup_file store_one_row) \<and> excel_file store_one_row \<noteq> NoBook
   \<and> load_locked env_file_locked \<and> save_fault env_file_locked \<noteq> None
   \<and> fst (write_to_excel_with_sync env_file_locked filters_kashi ''b'' store_one_row)
       = Inr False"
proof -
  have "is_backup_log (backup_file store_one_row)"
    by (simp add: is_backup_log_def store_one_row_def)
  moreover have "excel_file store_one_row \<noteq> NoBook" by (simp add: store_one_row_def)
  moreover have "load_locked env_file_locked \<and> save_fault env_file_locked \<noteq> None"
    by (simp add: env_file_locked_def)
  moreover have "is_backup_log (backup_file store_one_row)
      \<and> excel_file store_one_row \<noteq> NoBook \<and> load_locked env_file_locked
    \<longrightarrow> fst (write_to_excel_with_sync env_file_locked filters_kashi ''b'' store_one_row)
        = Inr False"
    using write_to_excel_never_raises [of env_file_locked filters_kashi "''b''" store_one_row]
    by blast
  ultimately show ?thesis by blast
qed

text \<open>
  C4, as amended. When a call of \<^verbatim>\<open>sync_missing_entries\<close> has returned, a second call
  on the files it left, with the outside world as it was at the first call (the
  workbook locked or not, the same values refused by the cells), returns 0 and leaves
  the workbook file as it was. Writing the integer index into column 1 is taken not to
  raise, as the library accepts every integer.
\<close>

theorem sync_idempotent:
  assumes first: "sync_missing_entries e s = (Inr n, s')"
    and idx: "\<forall>i. cell_fault e 1 (AInt i) = None"
  shows "\<exists>s''. sync_missing_entries e s' = (Inr 0, s'') \<and> excel_file s'' = excel_file s'"
proof (cases "backup_file s")
  case NoFile
  then have "s' = s" using first by (simp add: sync_missing_entries_def)
  then show ?thesis using NoFile by (simp add: sync_missing_entries_def)
next
  case Undecodable
  then have False using first by (simp add: sync_missing_entries_def)
  then show ?thesis ..
next
  case NotJson
  then have "s' = s\<lparr>backup_file := Json (JArr [])\<rparr>"
    using first by (simp add: sync_missing_entries_def)
  then show ?thesis by (simp add: sync_missing_entries_def)
next
  case (Json backup_data)
  show ?thesis
  proof (cases "falsy backup_data")
    case True
    then have "s' = s" using first Json by (simp add: sync_missing_entries_def)
    then show ?thesis using Json True by (simp add: sync_missing_entries_def)
  next
    case False
    obtain i x where init: "initialize_excel e (excel_file s) = (i, x)"
      by (cases "initialize_excel e (excel_file s)")
    show ?thesis
    proof (cases i)
      case (Inl err)
      then have x: "x = excel_file s" using init initialize_excel_Inl by blast
      have perm: "err = PermissionError"
        using first Json False init Inl by (cases err) (simp_all add: sync_missing_entries_def)
      then have "s' = s" using first Json False init Inl x
        by (simp add: sync_missing_entries_def)
      then show ?thesis using Json False init Inl x perm
        by (simp add: sync_missing_entries_def)
    next
      case (Inr ws)
      then obtain d where x: "x = Book d" using init initialize_excel_Inr by blast
      let ?st0 = "\<lparr>sheet = ws, existing_tuples = map (drop 1) (iter_rows 2 ws),
                   remaining_entries = [], added = 0\<rparr>"
      obtain entries where it: "py_iter backup_data = Inr entries"
        using first Json False init Inr
        by (cases "py_iter backup_data") (simp_all add: sync_missing_entries_def Let_def)
      obtain st where loop: "sync_loop e entries ?st0 = Inr st"
        using first Json False init Inr it
        by (cases "sync_loop e entries ?st0") (simp_all add: sync_missing_entries_def Let_def)
      have rem: "\<forall>x\<in>set (remaining_entries st). write_fails e x"
        using sync_loop_remaining [OF idx loop] by simp
      have "\<exists>d'. s' = \<lparr>backup_file = Json (JArr (remaining_entries st)), excel_file = Book d'\<rparr>"
        using first Json False init Inr it loop x
        by (auto simp: sync_missing_entries_def Let_def wb_save_def
            split: if_splits option.splits)
      then obtain d' where s': "s' = \<lparr>backup_file = Json (JArr (remaining_entries st)),
          excel_file = Book d'\<rparr>"
        by blast
      from sync_second_call [OF idx rem, of d'] show ?thesis
        unfolding s' by auto
    qed
  qed
qed

text \<open>The theorem after a run that wrote both waiting entries.\<close>

theorem sync_idempotent_witness:
  "sync_missing_entries env_ok store_two_pending = (Inr 2, store_synced)
   \<and> (\<forall>i. cell_fault env_ok 1 (AInt i) = None)
   \<and> (\<exists>s''. sync_missing_entries env_ok store_synced = (Inr 0, s'')
         \<and> excel_file s'' = excel_file store_synced)"
proof -
  have idx: "\<forall>i. cell_fault env_ok 1 (AInt i) = None" by (simp add: env_ok_def)
  show ?thesis
    using sync_two_pending idx sync_idempotent [OF sync_two_pending idx] by simp
qed

text \<open>
  C4 as it is written fails. Two entries wait in the log and the workbook is locked:
  the first call returns 0 and changes nothing. The lock is released and nothing is
  appended; the second call returns 2 and the sheet has grown from one row to three.
\<close>

theorem sync_second_call_adds_rows:
  "sync_missing_entries env_file_locked store_two_pending = (Inr 0, store_two_pending)
   \<and> sync_missing_entries env_ok store_two_pending = (Inr 2, store_synced)
   \<and> excel_file store_two_pending = Book (Some [header_row])
   \<and> excel_file store_synced = Book (Some [header_row, row_varanasi, row_kashi])"
  using sync_file_locked sync_two_pending
  by (simp add: store_two_pending_def store_synced_def)

text \<open>
  C5. The index written into column 1 of a new row is the row count of the sheet at
  the time of the write, \<^verbatim>\<open>ws.max_row\<close>, and the new row is the one below. For
  \<^verbatim>\<open>write_to_excel_with_sync\<close>: a call that returns true leaves one row more than the
  sheet it opened, with that sheet's row count in column 1. For
  \<^verbatim>\<open>sync_missing_entries\<close>: a call that returns \<open>n > 0\<close> leaves at least \<open>n\<close> rows more
  than the sheet it opened, and every row \<open>p\<close> below the rows it found carries \<open>p - 1\<close>
  in column 1, the row count when the loop reached it (unless assigning that integer
  raised); each pass of the loop that writes its row does the same. In the scenario of
  the specification, on files that do not exist yet, the call returns true and leaves a
  workbook with the header row and one data row of index 1, and a log with the one
  entry, which holds the region submitted.
\<close>

theorem index_is_row_count:
  "(write_to_excel_with_sync e filters output0 s = (Inr True, s') \<longrightarrow>
      (\<exists>ws0 x ws. initialize_excel e (excel_file s) = (Inr ws0, x)
         \<and> excel_file s' = Book (Some ws)
         \<and> length ws = max_row ws0 + 1
         \<and> cell_value (max_row ws0 + 1) 1 ws = AInt (int (max_row ws0))))
   \<and> (sync_missing_entries e2 s2 = (Inr n, s2') \<and> 0 < n \<longrightarrow>
        (\<exists>ws0 x ws. initialize_excel e2 (excel_file s2) = (Inr ws0, x)
           \<and> excel_file s2' = Book (Some ws)
           \<and> max_row ws0 + n \<le> length ws
           \<and> (\<forall>p. max_row ws0 < p \<and> p \<le> length ws
                   \<and> cell_fault e2 1 (AInt (int (p - 1))) = None
                 \<longrightarrow> cell_value p 1 ws = AInt (int (p - 1)))))
   \<and> (sync_write_row e t ws = (None, ws') \<longrightarrow>
        length ws' = max_row ws + 1
        \<and> cell_value (max_row ws + 1) 1 ws' = AInt (int (max_row ws)))
   \<and> write_to_excel_with_sync env_ok filters_varanasi output_day1 fresh_store
       = (Inr True,
          \<lparr>backup_file = Json (JArr [entry_varanasi]),
           excel_file = Book (Some [header_row, row_varanasi])\<rparr>)
   \<and> hd row_varanasi = AInt 1
   \<and> (\<exists>d. entry_varanasi = JObj d \<and> dict_get d ''region'' = JAtom (AStr ''Varanasi''))"
proof -
  have a: "write_to_excel_with_sync e filters output0 s = (Inr True, s') \<longrightarrow>
      (\<exists>ws0 x ws. initialize_excel e (excel_file s) = (Inr ws0, x)
         \<and> excel_file s' = Book (Some ws)
         \<and> length ws = max_row ws0 + 1
         \<and> cell_value (max_row ws0 + 1) 1 ws = AInt (int (max_row ws0)))"
  proof
    assume "write_to_excel_with_sync e filters output0 s = (Inr True, s')"
    from write_to_excel_success [OF this]
    obtain ws0 x as where init: "initialize_excel e (excel_file s) = (Inr ws0, x)"
      and row: "map JAtom as = append_cells (max_row ws0) filters (markdown_to_text output0)"
      and x: "excel_file s'
                = Book (Some (map (pad_row 10) (rows_above ws0) @ [map bind_value as]))"
      by blast
    let ?B = "map (pad_row 10) (rows_above ws0)"
    let ?row = "map bind_value as"
    have B: "length ?B = max_row ws0" by (simp add: length_rows_above)
    have hd: "?row \<noteq> [] \<and> hd ?row = AInt (int (max_row ws0))"
      using row by (cases as) (auto simp: append_cells_def)
    have "cell_value (Suc (length ?B)) (Suc 0) (?B @ [?row]) = hd ?row"
      using hd by (intro cell_value_last_row_first) simp
    then have "length (?B @ [?row]) = max_row ws0 + 1
        \<and> cell_value (max_row ws0 + 1) 1 (?B @ [?row]) = AInt (int (max_row ws0))"
      using B hd by simp
    with init x
    show "\<exists>ws0 x ws. initialize_excel e (excel_file s) = (Inr ws0, x)
           \<and> excel_file s' = Book (Some ws)
           \<and> length ws = max_row ws0 + 1
           \<and> cell_value (max_row ws0 + 1) 1 ws = AInt (int (max_row ws0))"
      by blast
  qed
  have l: "sync_missing_entries e2 s2 = (Inr n, s2') \<and> 0 < n \<longrightarrow>
        (\<exists>ws0 x ws. initialize_excel e2 (excel_file s2) = (Inr ws0, x)
           \<and> excel_file s2' = Book (Some ws)
           \<and> max_row ws0 + n \<le> length ws
           \<and> (\<forall>p. max_row ws0 < p \<and> p \<le> length ws
                   \<and> cell_fault e2 1 (AInt (int (p - 1))) = None
                 \<longrightarrow> cell_value p 1 ws = AInt (int (p - 1))))"
    using sync_rows_stamped [of e2 s2 n s2'] by blast
  have b: "sync_write_row e t ws = (None, ws') \<longrightarrow>
        length ws' = max_row ws + 1
        \<and> cell_value (max_row ws + 1) 1 ws' = AInt (int (max_row ws))"
  proof
    assume w: "sync_write_row e t ws = (None, ws')"
    from sync_write_row_success [OF w]
    obtain as where ws': "ws' = rows_above ws
        @ [pad_row 10 (AInt (int (max_row ws)) # map bind_value as)]"
      by blast
    let ?row = "pad_row 10 (AInt (int (max_row ws)) # map bind_value as)"
    have hd: "?row \<noteq> [] \<and> hd ?row = AInt (int (max_row ws))" by (simp add: pad_row_def)
    have "cell_value (Suc (length (rows_above ws))) (Suc 0) (rows_above ws @ [?row]) = hd ?row"
      using hd by (intro cell_value_last_row_first) simp
    then show "length ws' = max_row ws + 1
        \<and> cell_value (max_row ws + 1) 1 ws' = AInt (int (max_row ws))"
      using hd ws' by (simp add: length_rows_above)
  qed
  have c: "hd row_varanasi = AInt 1" by (simp add: row_varanasi_def)
  have d: "\<exists>d. entry_varanasi = JObj d \<and> dict_get d ''region'' = JAtom (AStr ''Varanasi'')"
    by (simp add: entry_varanasi_def filters_varanasi_def dict_get_def)
  show ?thesis using a l b c d append_scenario by blast
qed

text \<open>The theorem at the scenario, at a reconciliation that writes two waiting entries
  below the header, and at the first row the loop writes there.\<close>

theorem index_is_row_count_witness:
  "write_to_excel_with_sync env_ok filters_varanasi output_day1 fresh_store
     = (Inr True, store_one_row)
   \<and> (\<exists>ws0 x ws. initialize_excel env_ok (excel_file fresh_store) = (Inr ws0, x)
         \<and> excel_file store_one_row = Book (Some ws)
         \<and> length ws = max_row ws0 + 1
         \<and> cell_value (max_row ws0 + 1) 1 ws = AInt (int (max_row ws0)))
   \<and> sync_missing_entries env_ok store_two_pending = (Inr 2, store_synced)
   \<and> (\<exists>ws. excel_file store_synced = Book (Some ws)
         \<and> cell_value 2 1 ws = AInt 1 \<and> cell_value 3 1 ws = AInt 2)
   \<and> sync_write_row env_ok tuple_varanasi [header_row] = (None, [header_row, row_varanasi])
   \<and> length [header_row, row_varanasi] = max_row [header_row] + 1
   \<and> cell_value (max_row [header_row] + 1) 1 [header_row, row_varanasi]
       = AInt (int (max_row [header_row]))"
proof -
  have a: "write_to_excel_with_sync env_ok filters_varanasi output_day1 fresh_store
      = (Inr True, store_one_row)"
    using append_scenario by (simp add: store_one_row_def)
  note inst = index_is_row_count [where e = env_ok and filters = filters_varanasi
      and ?output0.0 = output_day1 and s = fresh_store and s' = store_one_row
      and ?e2.0 = env_ok and ?s2.0 = store_two_pending and n = 2 and s2' = store_synced
      and t = tuple_varanasi and ws = "[header_row]" and ws' = "[header_row, row_varanasi]"]
  have i1: "write_to_excel_with_sync env_ok filters_varanasi output_day1 fresh_store
      = (Inr True, store_one_row) \<longrightarrow>
    (\<exists>ws0 x ws. initialize_excel env_ok (excel_file fresh_store) = (Inr ws0, x)
         \<and> excel_file store_one_row = Book (Some ws)
         \<and> length ws = max_row ws0 + 1
         \<and> cell_value (max_row ws0 + 1) 1 ws = AInt (int (max_row ws0)))"
    using inst by (rule conjunct1)
  have i2: "sync_missing_entries env_ok store_two_pending = (Inr 2, store_synced)
      \<and> 0 < (2::nat) \<longrightarrow>
    (\<exists>ws0 x ws. initialize_excel env_ok (excel_file store_two_pending) = (Inr ws0, x)
         \<and> excel_file store_synced = Book (Some ws)
         \<and> max_row ws0 + 2 \<le> length ws
         \<and> (\<forall>p. max_row ws0 < p \<and> p \<le> length ws
                 \<and> cell_fault env_ok 1 (AInt (int (p - 1))) = None
               \<longrightarrow> cell_value p 1 ws = AInt (int (p - 1))))"
    using inst by (rule conjunct2 [THEN conjunct1])
  have i3: "sync_write_row env_ok tuple_varanasi [header_row]
      = (None, [header_row, row_varanasi]) \<longrightarrow>
    length [header_row, row_varanasi] = max_row [header_row] + 1
    \<and> cell_value (max_row [header_row] + 1) 1 [header_row, row_varanasi]
       = AInt (int (max_row [header_row]))"
    using inst by (rule conjunct2 [THEN conjunct2, THEN conjunct1])
  from i2 sync_two_pending
  obtain ws0 x ws where init: "initialize_excel env_ok (excel_file store_two_pending)
        = (Inr ws0, x)"
    and saved: "excel_file store_synced = Book (Some ws)"
    and each: "\<forall>p. max_row ws0 < p \<and> p \<le> length ws
                 \<and> cell_fault env_ok 1 (AInt (int (p - 1))) = None
               \<longrightarrow> cell_value p 1 ws = AInt (int (p - 1))"
    by auto
  have "initialize_excel env_ok (excel_file store_two_pending)
      = (Inr [header_row], Book (Some [header_row]))"
    unfolding store_two_pending_def
    using initialize_excel_header [of env_ok "[]"] by (simp add: env_ok_def)
  then have rows: "max_row ws0 = 1" using init by (simp add: max_row_def)
  have len: "length ws = 3" using saved by (auto simp: store_synced_def)
  have nf: "cell_fault env_ok 1 a = None" for a by (simp add: env_ok_def)
  have "cell_value 2 1 ws = AInt (int (2 - 1))"
    using each [rule_format, of 2] rows len nf by simp
  moreover have "cell_value 3 1 ws = AInt (int (3 - 1))"
    using each [rule_format, of 3] rows len nf by simp
  ultimately have stamped: "\<exists>ws. excel_file store_synced = Book (Some ws)
         \<and> cell_value 2 1 ws = AInt 1 \<and> cell_value 3 1 ws = AInt 2"
    using saved by auto
  show ?thesis using a sync_two_pending sync_write_row_varanasi i1 i3 stamped by blast
qed

text \<open>
  C7, as amended. Starting with no workbook (and at least one call) or with a workbook
  that holds the header only, take a run of calls of \<^verbatim>\<open>write_to_excel_with_sync\<close> that
  all return true, in which every value submitted is one a workbook keeps. Then the
  sheet, as saved and as any later load reads it, is the header row, which names the
  columns in the fixed order, followed by one row per call in the order of the calls.
  Row \<open>i\<close> (from 1) holds \<open>i\<close>, then the values the filters give for \<^verbatim>\<open>days_count\<close>,
  \<^verbatim>\<open>region\<close>, \<^verbatim>\<open>deity\<close>, \<^verbatim>\<open>yatra_specifics\<close>, \<^verbatim>\<open>pace\<close>, \<^verbatim>\<open>transport_preference\<close>,
  \<^verbatim>\<open>additional_instructions\<close> and \<^verbatim>\<open>specific_interests\<close> (\<^verbatim>\<open>None\<close> for a missing key),
  then the cleaned output.
\<close>

theorem export_round_trip:
  assumes start: "excel_file s = NoBook \<and> calls \<noteq> [] \<or> excel_file s = Book (Some [header_row])"
    and run: "export_calls calls s = (rs, s')"
    and ok: "\<forall>r\<in>set rs. r = Inr True"
    and kept_values: "\<forall>i<length calls.
        list_all kept (submitted_row (i + 1) (fst (snd (calls ! i))) (snd (snd (calls ! i))))"
  shows "\<exists>rows. excel_file s' = Book (Some (map AStr fixed_column_order # rows))
           \<and> read_sheet e' (excel_file s') = Some (map AStr fixed_column_order # rows)
           \<and> length rows = length calls
           \<and> (\<forall>i<length calls. map JAtom (rows ! i)
                 = submitted_row (i + 1) (fst (snd (calls ! i))) (snd (snd (calls ! i))))"
proof -
  have hlen: "length header_row = 10" by (simp add: header_row_def length_EXCEL_COLUMNS)
  have h1: "cell_value 1 1 [header_row] \<noteq> ANone"
    by (simp add: cell_value_def header_row_def EXCEL_COLUMNS_def)
  have main: "\<exists>rows. excel_file s' = Book (Some (header_row # rows))
           \<and> list_all (list_all kept_atom) rows
           \<and> length rows = length calls
           \<and> (\<forall>i<length calls. map JAtom (rows ! i)
                 = submitted_row (i + 1) (fst (snd (calls ! i))) (snd (snd (calls ! i))))"
    using start
  proof
    assume a: "excel_file s = Book (Some [header_row])"
    have t3: "\<forall>r\<in>set [header_row]. length r = 10" using hlen by simp
    have t4: "list_all (list_all kept_atom) [header_row]" using kept_header_row by simp
    have t5: "\<forall>i<length calls. list_all kept
           (submitted_row (length [header_row] + i) (fst (snd (calls ! i)))
              (snd (snd (calls ! i))))"
      using kept_values by simp
    from export_calls_Book [OF a _ h1 t3 t4 run ok t5]
    show ?thesis by auto
  next
    assume a: "excel_file s = NoBook \<and> calls \<noteq> []"
    then obtain call rest where calls: "calls = call # rest" by (cases calls) auto
    obtain e filters output0 where call: "call = (e, filters, output0)" by (cases call)
    obtain r s1 where first: "write_to_excel_with_sync e filters output0 s = (r, s1)"
      by (cases "write_to_excel_with_sync e filters output0 s")
    obtain rs1 s2 where others: "export_calls rest s1 = (rs1, s2)"
      by (cases "export_calls rest s1")
    have rs: "rs = r # rs1" and s': "s' = s2"
      using run calls call first others by simp_all
    have r: "r = Inr True" and rs1: "\<forall>r\<in>set rs1. r = Inr True"
      using ok rs by simp_all
    have new: "list_all kept (submitted_row (Suc 0) filters output0)"
      using kept_values [rule_format, of 0] calls call by simp
    from export_step_NoBook [OF _ new first [unfolded r]] a
    obtain row where s1: "excel_file s1 = Book (Some ([header_row] @ [row]))"
      and row: "map JAtom row = submitted_row (Suc 0) filters output0"
      and krow: "list_all kept_atom row"
      by blast
    have "length (map JAtom row) = 10" unfolding row by (rule length_submitted_row)
    then have len: "length row = 10" by simp
    have t2: "cell_value 1 1 ([header_row] @ [row]) \<noteq> ANone"
      using h1 cell_value_append [of "[header_row]" "[row]"] by simp
    have t3: "\<forall>r\<in>set ([header_row] @ [row]). length r = 10"
      using hlen len by simp
    have t4: "list_all (list_all kept_atom) ([header_row] @ [row])"
      using kept_header_row krow by simp
    have t5: "\<forall>i<length rest. list_all kept
           (submitted_row (length ([header_row] @ [row]) + i) (fst (snd (rest ! i)))
              (snd (snd (rest ! i))))"
    proof (intro allI impI)
      fix i assume "i < length rest"
      then have "Suc i < length calls" using calls by simp
      from kept_values [rule_format, OF this]
      show "list_all kept (submitted_row (length ([header_row] @ [row]) + i)
              (fst (snd (rest ! i))) (snd (snd (rest ! i))))"
        using calls by simp
    qed
    from export_calls_Book [OF s1 _ t2 t3 t4 others rs1 t5]
    obtain rows where x: "excel_file s2 = Book (Some (([header_row] @ [row]) @ rows))"
      and n: "length rows = length rest"
      and krows: "list_all (list_all kept_atom) rows"
      and each: "\<forall>i<length rest. map JAtom (rows ! i)
                 = submitted_row (length ([header_row] @ [row]) + i) (fst (snd (rest ! i)))
                     (snd (snd (rest ! i)))"
      by auto
    have "\<forall>i<length calls. map JAtom ((row # rows) ! i)
          = submitted_row (i + 1) (fst (snd (calls ! i))) (snd (snd (calls ! i)))"
    proof (intro allI impI)
      fix i assume i: "i < length calls"
      show "map JAtom ((row # rows) ! i)
          = submitted_row (i + 1) (fst (snd (calls ! i))) (snd (snd (calls ! i)))"
      proof (cases i)
        case 0
        then show ?thesis using row call calls by simp
      next
        case (Suc j)
        then have "j < length rest" using i calls by simp
        with each Suc calls show ?thesis by simp
      qed
    qed
    moreover have "excel_file s' = Book (Some (header_row # (row # rows)))" using x s' by simp
    moreover have "length (row # rows) = length calls" using n calls by simp
    moreover have "list_all (list_all kept_atom) (row # rows)" using krow krows by simp
    ultimately show ?thesis by blast
  qed
  then obtain rows where x: "excel_file s' = Book (Some (header_row # rows))"
    and krows: "list_all (list_all kept_atom) rows"
    and n: "length rows = length calls"
    and each: "\<forall>i<length calls. map JAtom (rows ! i)
                 = submitted_row (i + 1) (fst (snd (calls ! i))) (snd (snd (calls ! i)))"
    by blast
  have "list_all (list_all kept_atom) (header_row # rows)"
    using kept_header_row krows by simp
  then have "load_sheet e' (header_row # rows) = header_row # rows" by (rule kept_sheet_load)
  then have "read_sheet e' (excel_file s') = Some (header_row # rows)"
    using x by (simp add: read_sheet_def)
  then show ?thesis using x n each by (auto simp: header_fixed_column_order)
qed

text \<open>The theorem at the two exports on files that do not exist yet.\<close>

theorem export_round_trip_witness:
  "export_calls two_calls fresh_store = ([Inr True, Inr True], store_two_rows)
   \<and> list_all kept (submitted_row 1 filters_varanasi output_day1)
   \<and> list_all kept (submitted_row 2 filters_kashi ''b'')
   \<and> (\<exists>rows. excel_file store_two_rows = Book (Some (map AStr fixed_column_order # rows))
         \<and> read_sheet env_ok (excel_file store_two_rows)
             = Some (map AStr fixed_column_order # rows)
         \<and> length rows = 2
         \<and> map JAtom (rows ! 0) = submitted_row 1 filters_varanasi output_day1
         \<and> map JAtom (rows ! 1) = submitted_row 2 filters_kashi ''b'')"
proof -
  have start: "excel_file fresh_store = NoBook \<and> two_calls \<noteq> []
      \<or> excel_file fresh_store = Book (Some [header_row])"
    by (simp add: fresh_store_def two_calls_def)
  have ok: "\<forall>r\<in>set [Inr True, Inr True]. r = (Inr True :: exn + bool)" by simp
  have k1: "list_all kept (submitted_row 1 filters_varanasi output_day1)"
    using append_cells_submitted_row [of 1 filters_varanasi output_day1]
      append_cells_varanasi kept_row_varanasi kept_map_JAtom [of row_varanasi]
    by (simp add: markdown_output_day1')
  have k2: "list_all kept (submitted_row 2 filters_kashi ''b'')"
    using append_cells_submitted_row [of 2 filters_kashi "''b''"]
      append_cells_kashi kept_row_kashi kept_map_JAtom [of row_kashi]
    by (simp add: markdown_to_text_b numeral_2_eq_2)
  have kept_values: "\<forall>i<length two_calls. list_all kept
      (submitted_row (i + 1) (fst (snd (two_calls ! i))) (snd (snd (two_calls ! i))))"
  proof (intro allI impI)
    fix i assume "i < length two_calls"
    then have "i = 0 \<or> i = 1" by (auto simp: two_calls_def)
    then show "list_all kept
      (submitted_row (i + 1) (fst (snd (two_calls ! i))) (snd (snd (two_calls ! i))))"
      using k1 k2 by (auto simp: two_calls_def numeral_2_eq_2)
  qed
  from export_round_trip [OF start export_two_calls ok kept_values, of env_ok]
  obtain rows where x: "excel_file store_two_rows
        = Book (Some (map AStr fixed_column_order # rows))"
    and rd: "read_sheet env_ok (excel_file store_two_rows)
        = Some (map AStr fixed_column_order # rows)"
    and n: "length rows = length two_calls"
    and each: "\<forall>i<length two_calls. map JAtom (rows ! i)
        = submitted_row (i + 1) (fst (snd (two_calls ! i))) (snd (snd (two_calls ! i)))"
    by blast
  have "map JAtom (rows ! 0) = submitted_row 1 filters_varanasi output_day1"
    using each [rule_format, of 0] by (simp add: two_calls_def)
  moreover have "map JAtom (rows ! 1) = submitted_row 2 filters_kashi ''b''"
    using each [rule_format, of 1] by (simp add: two_calls_def numeral_2_eq_2)
  moreover have "length rows = 2" using n by (simp add: two_calls_def)
  ultimately show ?thesis using export_two_calls k1 k2 x rd by blast
qed

text \<open>
  C7 as it is written fails. One export of an empty output, on files that do not exist
  yet, returns true; the sheet read back has the header row and one data row, and the
  cell under \<^verbatim>\<open>generated_itinerary\<close> holds \<^verbatim>\<open>None\<close> where the empty string was submitted.
\<close>

theorem export_empty_output_reads_none:
  "export_calls [(env_ok, filters_varanasi, [])] fresh_store = ([Inr True], store_empty_output)
   \<and> read_sheet env_ok (excel_file store_empty_output) = Some [header_row, row_empty_read]
   \<and> fixed_column_order ! 9 = ''generated_itinerary''
   \<and> submitted_row 1 filters_varanasi [] ! 9 = JAtom (AStr [])
   \<and> row_empty_read ! 9 = ANone
   \<and> map JAtom row_empty_read \<noteq> submitted_row 1 filters_varanasi []"
proof -
  have a: "export_calls [(env_ok, filters_varanasi, [])] fresh_store
      = ([Inr True], store_empty_output)"
    using export_empty_output by simp
  have b: "submitted_row 1 filters_varanasi [] ! 9 = JAtom (AStr [])"
    by (simp add: submitted_row_def fixed_column_order_def markdown_to_text_empty
        eval_nat_numeral)
  have c: "row_empty_read ! 9 = ANone" by (simp add: row_empty_read_def eval_nat_numeral)
  have d: "fixed_column_order ! 9 = ''generated_itinerary''"
    by (simp add: fixed_column_order_def eval_nat_numeral)
  have "map JAtom row_empty_read ! 9 = JAtom ANone"
    using c by (simp add: row_empty_read_def)
  then have e: "map JAtom row_empty_read \<noteq> submitted_row 1 filters_varanasi []"
    using b by auto
  show ?thesis using a read_empty_output b c d e by simp
qed

text \<open>
  C8, evaluated where the code departs from it. When the text of the backup file is not
  JSON, \<^verbatim>\<open>sync_missing_entries\<close> rewrites the file to the empty array and returns 0,
  and the workbook file is not touched. When the bytes of the file are not text,
  \<^verbatim>\<open>read_text\<close> raises \<^verbatim>\<open>UnicodeDecodeError\<close>, which the handler for \<^verbatim>\<open>JSONDecodeError\<close>
  does not catch: the call raises and the file stays as it is.
\<close>

theorem sync_raises_on_undecodable_bytes:
  "sync_missing_entries env_ok store_bad_bytes = (Inl UnicodeDecodeError, store_bad_bytes)
   \<and> sync_missing_entries e (s\<lparr>backup_file := Undecodable\<rparr>)
       = (Inl UnicodeDecodeError, s\<lparr>backup_file := Undecodable\<rparr>)
   \<and> sync_missing_entries e (s\<lparr>backup_file := NotJson\<rparr>)
       = (Inr 0, s\<lparr>backup_file := Json (JArr [])\<rparr>)
   \<and> sync_missing_entries env_ok store_corrupt
       = (Inr 0, \<lparr>backup_file = Json (JArr []), excel_file = Book (Some [header_row])\<rparr>)"
  by (simp add: sync_missing_entries_def store_bad_bytes_def store_corrupt_def)

text \<open>
  C9. For every prompt, \<^verbatim>\<open>__query_model\<close> returns the empty string when the service
  gives no response or a response without text or with empty text; and whatever
  exception the configuration, the client or the call raises is logged and raised
  again.
\<close>

theorem query_model_soft_failure:
  "(config_fault g = None \<and>
      (generate_content g prompt = Inr None
       \<or> (\<exists>r. generate_content g prompt = Inr (Some r)
               \<and> (resp_text r = None \<or> resp_text r = Some [])))
     \<longrightarrow> fst (query_model g prompt log0) = Inr [])
   \<and> (\<forall>err. config_fault g = Some err
             \<or> (config_fault g = None \<and> generate_content g prompt = Inl err)
        \<longrightarrow> query_model g prompt log0
              = (Inl err, log0 @ [LogDebug ''Querying Gemini model...'', LogException err]))"
  by (auto simp: query_model_def Let_def split: option.splits sum.splits)

text \<open>The theorem at a service that answers with nothing and at one whose call
  raises.\<close>

theorem query_model_soft_failure_witness:
  "fst (query_model gen_empty ''plan'' []) = Inr []
   \<and> query_model gen_failing ''plan'' []
       = (Inl OtherException,
          [LogDebug ''Querying Gemini model...'', LogException OtherException])"
proof -
  have "config_fault gen_empty = None \<and> generate_content gen_empty ''plan'' = Inr None"
    by (simp add: gen_empty_def)
  moreover have "config_fault gen_failing = None
      \<and> generate_content gen_failing ''plan'' = Inl OtherException"
    by (simp add: gen_failing_def)
  ultimately show ?thesis
    using query_model_soft_failure [of gen_empty "''plan''" "[]"]
      query_model_soft_failure [of gen_failing "''plan''" "[]"]
    by simp
qed

end
